theory Spec2Isabelle
  imports Complex_Main
begin

section \<open>Exceptions as values\<close>

text \<open>
  Every exception the Python code can raise is a value of \<open>error\<close>; a computation that may
  raise returns \<open>error + 'a\<close>, with \<open>Inl\<close> the exception. \<open>bindE\<close> sequences two such
  computations and \<open>foldE\<close> is a \<^verbatim>\<open>for\<close> loop whose body may raise: the first exception
  leaves the loop.
\<close>

datatype error =
    ZeroDivisionError
  | KeyError
  | IndexError
  | ValueError
  | NetworkXError
  | NetworkXNoPath
  | NodeNotFound
  | UFuncTypeError

definition bindE :: "error + 'a \<Rightarrow> ('a \<Rightarrow> error + 'b) \<Rightarrow> error + 'b" where
  "bindE m f = (case m of Inl e \<Rightarrow> Inl e | Inr x \<Rightarrow> f x)"

fun foldE :: "('a \<Rightarrow> 's \<Rightarrow> error + 's) \<Rightarrow> 'a list \<Rightarrow> 's \<Rightarrow> error + 's" where
  "foldE f [] s = Inr s"
| "foldE f (x # xs) s = bindE (f x s) (foldE f xs)"

text \<open>A dictionary read \<^verbatim>\<open>d[k]\<close>: \<^verbatim>\<open>KeyError\<close> when the key is absent.\<close>

definition getitem :: "('k \<rightharpoonup> 'v) \<Rightarrow> 'k \<Rightarrow> error + 'v" where
  "getitem d k = (case d k of None \<Rightarrow> Inl KeyError | Some v \<Rightarrow> Inr v)"

definition attr :: "'v option \<Rightarrow> error + 'v" where
  "attr a = (case a of None \<Rightarrow> Inl KeyError | Some v \<Rightarrow> Inr v)"

section \<open>Python numbers and numpy numbers\<close>

text \<open>
  The attributes \<^verbatim>\<open>volume\<close> and \<^verbatim>\<open>inverse_transit_time\<close> of an edge are numbers whose kind
  decides what a division by zero does: a Python \<^verbatim>\<open>int\<close>, a Python \<^verbatim>\<open>float\<close> or a
  \<^verbatim>\<open>numpy.float64\<close>. The value of a float is idealised as a real number. In \<^verbatim>\<open>a * b\<close> and
  \<^verbatim>\<open>a + b\<close> a \<^verbatim>\<open>numpy.float64\<close> operand makes the result a \<^verbatim>\<open>numpy.float64\<close>; otherwise a
  \<^verbatim>\<open>float\<close> operand makes it a \<^verbatim>\<open>float\<close>; two \<^verbatim>\<open>int\<close>s give an \<^verbatim>\<open>int\<close>.
\<close>

datatype number = PyInt int | PyFloat real | NpFloat real

fun value_of :: "number \<Rightarrow> real" where
  "value_of (PyInt n) = of_int n"
| "value_of (PyFloat x) = x"
| "value_of (NpFloat x) = x"

fun is_numpy :: "number \<Rightarrow> bool" where
  "is_numpy (PyInt n) = False"
| "is_numpy (PyFloat x) = False"
| "is_numpy (NpFloat x) = True"

fun num_mul :: "number \<Rightarrow> number \<Rightarrow> number" where
  "num_mul (PyInt m) (PyInt n) = PyInt (m * n)"
| "num_mul (PyInt m) (PyFloat y) = PyFloat (of_int m * y)"
| "num_mul (PyFloat x) (PyInt n) = PyFloat (x * of_int n)"
| "num_mul (PyFloat x) (PyFloat y) = PyFloat (x * y)"
| "num_mul (NpFloat x) b = NpFloat (x * value_of b)"
| "num_mul a (NpFloat y) = NpFloat (value_of a * y)"

fun num_add :: "number \<Rightarrow> number \<Rightarrow> number" where
  "num_add (PyInt m) (PyInt n) = PyInt (m + n)"
| "num_add (PyInt m) (PyFloat y) = PyFloat (of_int m + y)"
| "num_add (PyFloat x) (PyInt n) = PyFloat (x + of_int n)"
| "num_add (PyFloat x) (PyFloat y) = PyFloat (x + y)"
| "num_add (NpFloat x) b = NpFloat (x + value_of b)"
| "num_add a (NpFloat y) = NpFloat (value_of a + y)"

text \<open>
  \<^verbatim>\<open>a / q\<close> for a Python \<^verbatim>\<open>float\<close> \<open>a\<close>. A zero divisor that is a Python \<^verbatim>\<open>int\<close> or \<^verbatim>\<open>float\<close>
  raises \<^verbatim>\<open>ZeroDivisionError\<close>. A zero divisor that is a \<^verbatim>\<open>numpy.float64\<close> raises nothing:
  numpy emits a \<^verbatim>\<open>RuntimeWarning\<close> and the division returns an infinity of the sign of
  \<open>a\<close>, or \<^verbatim>\<open>nan\<close> when \<open>a\<close> is zero too.
\<close>

datatype quotient = Finite number | NpInf | NpNegInf | NpNan

definition float_truediv :: "real \<Rightarrow> number \<Rightarrow> error + quotient" where
  "float_truediv a q =
     (case q of
        PyInt n \<Rightarrow> if n = 0 then Inl ZeroDivisionError else Inr (Finite (PyFloat (a / of_int n)))
      | PyFloat y \<Rightarrow> if y = 0 then Inl ZeroDivisionError else Inr (Finite (PyFloat (a / y)))
      | NpFloat y \<Rightarrow>
          if y \<noteq> 0 then Inr (Finite (NpFloat (a / y)))
          else if 0 < a then Inr NpInf
          else if a < 0 then Inr NpNegInf
          else Inr NpNan)"

section \<open>The network graph\<close>

text \<open>
  The graph is a \<^verbatim>\<open>networkx.DiGraph\<close> of networkx 1.x (the code reads \<^verbatim>\<open>G.node[n]\<close>), where
  \<^verbatim>\<open>G.edges()\<close> returns a new list. Nodes are Python integers. \<open>node_order\<close> is the
  node dictionary's key order (insertion order), \<open>succ G u\<close> the keys of the adjacency
  dictionary \<^verbatim>\<open>G[u]\<close> in insertion order. Node attributes (\<^verbatim>\<open>ntype\<close>, \<^verbatim>\<open>pos\<close>), edge
  attributes and graph attributes are dictionaries, so each is a partial map. Floating
  point numbers are idealised as real numbers.
\<close>

type_synonym node = int
type_synonym edge = "node \<times> node"

datatype role = Internal | Source | Sink

record graph =
  node_order :: "node list"
  succ :: "node \<Rightarrow> node list"
  ntype :: "node \<rightharpoonup> role"
  pos :: "node \<rightharpoonup> real \<times> real \<times> real"
  edge_length :: "edge \<rightharpoonup> real"
  radius :: "edge \<rightharpoonup> real"
  src_dist :: "edge \<rightharpoonup> int"
  sink_dist :: "edge \<rightharpoonup> int"
  center_dist :: "edge \<rightharpoonup> int"
  volume :: "edge \<rightharpoonup> number"
  inverse_transit_time :: "edge \<rightharpoonup> number"
  idx :: "edge \<rightharpoonup> nat"
  g_N :: "int option"
  g_delta :: "real option"
  g_source :: "node option"
  g_sink :: "node option"

text \<open>\<^verbatim>\<open>G.edges()\<close>: for every node in node order, its out-edges in adjacency order.\<close>

definition edges :: "graph \<Rightarrow> edge list" where
  "edges G = concat (map (\<lambda>u. map (\<lambda>v. (u, v)) (succ G u)) (node_order G))"

text \<open>\<^verbatim>\<open>nx.DiGraph()\<close>: no node, no edge, no attribute.\<close>

definition empty_graph :: graph where
  "empty_graph =
     \<lparr> node_order = [], succ = (\<lambda>_. []), ntype = Map.empty, pos = Map.empty,
       edge_length = Map.empty, radius = Map.empty, src_dist = Map.empty,
       sink_dist = Map.empty, center_dist = Map.empty, volume = Map.empty,
       inverse_transit_time = Map.empty, idx = Map.empty,
       g_N = None, g_delta = None, g_source = None, g_sink = None \<rparr>"

text \<open>
  \<^verbatim>\<open>G.add_node(n, pos=p, ntype=t)\<close> appends a new node to the node order and sets the two
  attributes (on an existing node it only updates them).
\<close>

definition insert_node :: "node \<Rightarrow> node list \<Rightarrow> node list" where
  "insert_node n ns = (if n \<in> set ns then ns else ns @ [n])"

definition add_node :: "node \<Rightarrow> real \<times> real \<times> real \<Rightarrow> role \<Rightarrow> graph \<Rightarrow> graph" where
  "add_node n p t G =
     G\<lparr> node_order := insert_node n (node_order G),
        pos := (pos G)(n \<mapsto> p),
        ntype := (ntype G)(n \<mapsto> t) \<rparr>"

text \<open>
  \<^verbatim>\<open>G.add_edge(u, v)\<close> adds the endpoints that are missing (with no attribute), then the
  edge, last in \<open>u\<close>'s adjacency; an edge that is already there is left as it is.
\<close>

definition add_edge :: "node \<Rightarrow> node \<Rightarrow> graph \<Rightarrow> graph" where
  "add_edge u v G =
     G\<lparr> node_order := insert_node v (insert_node u (node_order G)),
        succ := (succ G)(u := (if v \<in> set (succ G u) then succ G u else succ G u @ [v])) \<rparr>"

text \<open>\<^verbatim>\<open>G.add_edges_from(el)\<close>.\<close>

definition add_edges_from :: "edge list \<Rightarrow> graph \<Rightarrow> graph" where
  "add_edges_from el G = fold (\<lambda>e. add_edge (fst e) (snd e)) el G"

text \<open>
  \<^verbatim>\<open>G.remove_edge(u, v)\<close> deletes the edge with its attribute dictionary;
  \<^verbatim>\<open>NetworkXError\<close> when the edge is not in the graph.
\<close>

definition remove_edge :: "node \<Rightarrow> node \<Rightarrow> graph \<Rightarrow> error + graph" where
  "remove_edge u v G =
     (if v \<in> set (succ G u) then
        Inr (G\<lparr> succ := (succ G)(u := removeAll v (succ G u)),
                edge_length := (edge_length G)((u, v) := None),
                radius := (radius G)((u, v) := None),
                src_dist := (src_dist G)((u, v) := None),
                sink_dist := (sink_dist G)((u, v) := None),
                center_dist := (center_dist G)((u, v) := None),
                volume := (volume G)((u, v) := None),
                inverse_transit_time := (inverse_transit_time G)((u, v) := None),
                idx := (idx G)((u, v) := None) \<rparr>)
      else Inl NetworkXError)"

text \<open>\<^verbatim>\<open>G.node[n]['ntype']\<close>: \<^verbatim>\<open>KeyError\<close> for a missing node or a missing attribute.\<close>

definition node_ntype :: "graph \<Rightarrow> node \<Rightarrow> error + role" where
  "node_ntype G n = (if n \<in> set (node_order G) then getitem (ntype G) n else Inl KeyError)"

text \<open>\<^verbatim>\<open>G.node[n]['ntype'] = t\<close>: \<^verbatim>\<open>KeyError\<close> for a missing node.\<close>

definition set_ntype :: "node \<Rightarrow> role \<Rightarrow> graph \<Rightarrow> error + graph" where
  "set_ntype n t G =
     (if n \<in> set (node_order G) then Inr (G\<lparr> ntype := (ntype G)(n \<mapsto> t) \<rparr>)
      else Inl KeyError)"

section \<open>Shortest paths\<close>

text \<open>
  \<^verbatim>\<open>nx.shortest_path_length(G, source, target)\<close> is the library's breadth-first search:
  the number of edges of a shortest directed path, \<^verbatim>\<open>NetworkXNoPath\<close> when there is
  none, an error when an endpoint is not a node of the graph. \<open>bfs_level G s k\<close> are the
  nodes that a walk of exactly \<open>k\<close> edges reaches from \<open>s\<close>; the search stops at the first
  level that holds the target. A shortest path repeats no node, so it has fewer edges
  than the graph has nodes, and levels beyond that are not searched.
\<close>

fun bfs_level :: "graph \<Rightarrow> node \<Rightarrow> nat \<Rightarrow> node list" where
  "bfs_level G s 0 = [s]"
| "bfs_level G s (Suc k) = remdups (concat (map (succ G) (bfs_level G s k)))"

definition shortest_path_length :: "graph \<Rightarrow> node \<Rightarrow> node \<Rightarrow> error + int" where
  "shortest_path_length G s t =
     (if s \<notin> set (node_order G) \<or> t \<notin> set (node_order G) then Inl NodeNotFound
      else case find (\<lambda>k. t \<in> set (bfs_level G s k)) [0..<length (node_order G)] of
             None \<Rightarrow> Inl NetworkXNoPath
           | Some k \<Rightarrow> Inr (int k))"

text \<open>
  The graph distance the specification speaks of: \<open>walk G s k t\<close> says that a directed
  walk of \<open>k\<close> edges leads from \<open>s\<close> to \<open>t\<close>; \<open>t\<close> is reachable when some walk does, and its
  distance is the least number of edges of one.
\<close>

inductive walk :: "graph \<Rightarrow> node \<Rightarrow> nat \<Rightarrow> node \<Rightarrow> bool" for G :: graph and s :: node where
  walk_refl: "walk G s 0 s"
| walk_step: "walk G s k u \<Longrightarrow> v \<in> set (succ G u) \<Longrightarrow> walk G s (Suc k) v"

definition reachable :: "graph \<Rightarrow> node \<Rightarrow> node \<Rightarrow> bool" where
  "reachable G s t = (\<exists>k. walk G s k t)"

definition graph_distance :: "graph \<Rightarrow> node \<Rightarrow> node \<Rightarrow> nat" where
  "graph_distance G s t = (LEAST k. walk G s k t)"

text \<open>
  The invariant of the library's graph structure: a node is listed once, every endpoint
  of an edge is a node, a successor is listed once.
\<close>

definition wf_graph :: "graph \<Rightarrow> bool" where
  "wf_graph G \<longleftrightarrow>
     distinct (node_order G) \<and>
     (\<forall>u. u \<notin> set (node_order G) \<longrightarrow> succ G u = []) \<and>
     (\<forall>u. set (succ G u) \<subseteq> set (node_order G)) \<and>
     (\<forall>u. distinct (succ G u))"

section \<open>Distance ranking\<close>

text \<open>
  \<^verbatim>\<open>assign_distances_from_source_and_sink_nodes\<close>. First the nodes are sorted into source
  nodes and sink nodes, in node order.
\<close>

definition classify_node ::
  "graph \<Rightarrow> node \<Rightarrow> node list \<times> node list \<Rightarrow> error + node list \<times> node list" where
  "classify_node G n acc =
     (case acc of (source_nodes, sink_nodes) \<Rightarrow>
        bindE (node_ntype G n) (\<lambda>t.
          if t = Source then Inr (source_nodes @ [n], sink_nodes)
          else if t = Sink then Inr (source_nodes, sink_nodes @ [n])
          else Inr (source_nodes, sink_nodes)))"

definition source_and_sink_nodes :: "graph \<Rightarrow> error + node list \<times> node list" where
  "source_and_sink_nodes G = foldE (classify_node G) (node_order G) ([], [])"

text \<open>
  One \<^verbatim>\<open>try: dists.append(nx.shortest_path_length(...)) except nx.NetworkXNoPath: pass\<close>
  and the loop of such queries over a list of anchor nodes: an anchor with no path adds
  nothing, any other exception leaves the function.
\<close>

definition try_append :: "error + int \<Rightarrow> int list \<Rightarrow> error + int list" where
  "try_append r dists =
     (case r of
        Inr d \<Rightarrow> Inr (dists @ [d])
      | Inl e \<Rightarrow> if e = NetworkXNoPath then Inr dists else Inl e)"

definition path_lengths :: "(node \<Rightarrow> error + int) \<Rightarrow> node list \<Rightarrow> error + int list" where
  "path_lengths query anchors = foldE (\<lambda>a dists. try_append (query a) dists) anchors []"

text \<open>\<^verbatim>\<open>0 if len(dists) == 0 else min(dists)\<close>.\<close>

definition min_or_zero :: "int list \<Rightarrow> int" where
  "min_or_zero dists = (if length dists = 0 then 0 else Min (set dists))"

definition assign_edge_distances ::
  "node list \<Rightarrow> node list \<Rightarrow> edge \<Rightarrow> graph \<Rightarrow> error + graph" where
  "assign_edge_distances source_nodes sink_nodes e G =
     (case e of (src, sink) \<Rightarrow>
        bindE (path_lengths (\<lambda>entrance_node. shortest_path_length G entrance_node src)
                 source_nodes) (\<lambda>src_dists.
        bindE (path_lengths (\<lambda>exit_node. shortest_path_length G sink exit_node)
                 sink_nodes) (\<lambda>sink_dists.
          let sd = min_or_zero src_dists;
              kd = min_or_zero sink_dists
          in Inr (G\<lparr> src_dist := (src_dist G)((src, sink) \<mapsto> sd),
                     sink_dist := (sink_dist G)((src, sink) \<mapsto> kd),
                     center_dist := (center_dist G)((src, sink) \<mapsto> \<bar>sd - kd\<bar>) \<rparr>))))"

definition assign_distances_from_source_and_sink_nodes :: "graph \<Rightarrow> error + graph" where
  "assign_distances_from_source_and_sink_nodes G =
     bindE (source_and_sink_nodes G) (\<lambda>(source_nodes, sink_nodes).
       foldE (assign_edge_distances source_nodes sink_nodes) (edges G) G)"

section \<open>Central difference and radius switches\<close>

text \<open>
  \<^verbatim>\<open>dist_edge_node\<close>, the helper inside \<^verbatim>\<open>central_difference\<close>: the path length from the
  edge's source endpoint to the node; when there is no such path, the path length from
  the node to the edge's sink endpoint (whose exceptions are not caught).
\<close>

definition dist_edge_node :: "graph \<Rightarrow> edge \<Rightarrow> node \<Rightarrow> error + int" where
  "dist_edge_node G e n =
     (case e of (src, sink) \<Rightarrow>
        (case shortest_path_length G src n of
           Inr d1 \<Rightarrow> Inr d1
         | Inl err \<Rightarrow>
             if err = NetworkXNoPath then shortest_path_length G n sink else Inl err))"

definition central_difference :: "graph \<Rightarrow> edge \<Rightarrow> error + int" where
  "central_difference G e =
     bindE (attr (g_source G)) (\<lambda>s.
     bindE (dist_edge_node G e s) (\<lambda>d1.
     bindE (attr (g_sink G)) (\<lambda>t.
     bindE (dist_edge_node G e t) (\<lambda>d2.
       Inr \<bar>d1 - d2\<bar>))))"

text \<open>
  \<^verbatim>\<open>make_switches\<close>. The inner loop over the partners of edge 1 ends at the first swap
  (\<^verbatim>\<open>break\<close>); \<open>cd1\<close> and \<open>r1\<close> are read once, before it.
\<close>

fun scan_partners :: "graph \<Rightarrow> edge \<Rightarrow> int \<Rightarrow> real \<Rightarrow> edge list \<Rightarrow> error + graph" where
  "scan_partners G e1 cd1 r1 [] = Inr G"
| "scan_partners G e1 cd1 r1 (e2 # es) =
     (if fst e1 = fst e2 \<or> snd e1 = snd e2 then scan_partners G e1 cd1 r1 es
      else
        bindE (central_difference G e2) (\<lambda>cd2.
        bindE (getitem (radius G) e2) (\<lambda>r2.
          if cd1 < cd2 \<and> r1 > r2
          then Inr (G\<lparr> radius := (radius G)(e1 \<mapsto> r2, e2 \<mapsto> r1) \<rparr>)
          else scan_partners G e1 cd1 r1 es)))"

definition switch_edge :: "edge \<Rightarrow> graph \<Rightarrow> error + graph" where
  "switch_edge e1 G =
     bindE (central_difference G e1) (\<lambda>cd1.
     bindE (getitem (radius G) e1) (\<lambda>r1.
       scan_partners G e1 cd1 r1 (edges G)))"

definition make_switches :: "graph \<Rightarrow> error + graph" where
  "make_switches G = foldE switch_edge (edges G) G"

section \<open>Lattice construction\<close>

text \<open>\<^verbatim>\<open>range(n)\<close>, empty for \<open>n \<le> 0\<close>.\<close>

definition py_range :: "int \<Rightarrow> int list" where
  "py_range n = map int [0..<nat n]"

text \<open>
  The index triples in the order in which the three nested loops
  \<^verbatim>\<open>for x_idx in range(N): for y_idx in range(N): for z_idx in range(N)\<close> visit them.
\<close>

definition grid :: "int \<Rightarrow> (int \<times> int \<times> int) list" where
  "grid N = concat (map (\<lambda>x. concat (map (\<lambda>y. map (\<lambda>z. (x, y, z)) (py_range N))
                                           (py_range N)))
                        (py_range N))"

type_synonym vdict = "int \<times> int \<times> int \<rightharpoonup> node"

text \<open>
  The body of the node loop: \<^verbatim>\<open>vd[(x, y, z)] = counter\<close>, the node is added at position
  \<^verbatim>\<open>[delta * (x + 1), delta * (y + 1), delta * (z + 1)]\<close> as an internal node, and the
  counter is incremented.
\<close>

definition add_lattice_node ::
  "real \<Rightarrow> int \<times> int \<times> int \<Rightarrow> vdict \<times> graph \<times> int \<Rightarrow> vdict \<times> graph \<times> int" where
  "add_lattice_node delta p st =
     (case p of (x_idx, y_idx, z_idx) \<Rightarrow>
      case st of (vd, G, counter) \<Rightarrow>
        (vd((x_idx, y_idx, z_idx) \<mapsto> counter),
         add_node counter
           (delta * (of_int x_idx + 1), delta * (of_int y_idx + 1), delta * (of_int z_idx + 1))
           Internal G,
         counter + 1))"

definition add_lattice_nodes :: "int \<Rightarrow> real \<Rightarrow> graph \<Rightarrow> vdict \<times> graph \<times> int" where
  "add_lattice_nodes N delta G = fold (add_lattice_node delta) (grid N) (Map.empty, G, 0)"

text \<open>
  The body of the edge loop: the list \<^verbatim>\<open>el\<close> of the edges to the next node along each
  axis (where there is one), then \<^verbatim>\<open>G.add_edges_from(el)\<close>.
\<close>

definition lattice_edge ::
  "vdict \<Rightarrow> int \<times> int \<times> int \<Rightarrow> int \<times> int \<times> int \<Rightarrow> error + edge" where
  "lattice_edge vd p q = bindE (getitem vd p) (\<lambda>u. bindE (getitem vd q) (\<lambda>v. Inr (u, v)))"

definition forward_edges :: "int \<Rightarrow> vdict \<Rightarrow> int \<times> int \<times> int \<Rightarrow> error + edge list" where
  "forward_edges N vd p =
     (case p of (x_idx, y_idx, z_idx) \<Rightarrow>
        bindE (if x_idx < N - 1
               then bindE (lattice_edge vd (x_idx, y_idx, z_idx) (x_idx + 1, y_idx, z_idx))
                      (\<lambda>e. Inr [e])
               else Inr []) (\<lambda>el1.
        bindE (if y_idx < N - 1
               then bindE (lattice_edge vd (x_idx, y_idx, z_idx) (x_idx, y_idx + 1, z_idx))
                      (\<lambda>e. Inr (el1 @ [e]))
               else Inr el1) (\<lambda>el2.
        if z_idx < N - 1
        then bindE (lattice_edge vd (x_idx, y_idx, z_idx) (x_idx, y_idx, z_idx + 1))
               (\<lambda>e. Inr (el2 @ [e]))
        else Inr el2)))"

definition add_forward_edges ::
  "int \<Rightarrow> vdict \<Rightarrow> int \<times> int \<times> int \<Rightarrow> graph \<Rightarrow> error + graph" where
  "add_forward_edges N vd p G = bindE (forward_edges N vd p) (\<lambda>el. Inr (add_edges_from el G))"

definition add_lattice_edges :: "int \<Rightarrow> vdict \<Rightarrow> graph \<Rightarrow> error + graph" where
  "add_lattice_edges N vd G = foldE (add_forward_edges N vd) (grid N) G"

text \<open>
  Sources and sinks: for every \<open>(x, y)\<close> with \<open>x\<close> and \<open>y\<close> of the same parity, the node at
  \<open>(x, y, 0)\<close> becomes a source, then the node at \<open>(x, y, N - 1)\<close> becomes a sink.
\<close>

definition columns :: "int \<Rightarrow> (int \<times> int) list" where
  "columns N = concat (map (\<lambda>x. map (\<lambda>y. (x, y)) (py_range N)) (py_range N))"

definition mark_column :: "int \<Rightarrow> vdict \<Rightarrow> int \<times> int \<Rightarrow> graph \<Rightarrow> error + graph" where
  "mark_column N vd c G =
     (case c of (x_idx, y_idx) \<Rightarrow>
        if y_idx mod 2 \<noteq> x_idx mod 2 then Inr G
        else
          bindE (getitem vd (x_idx, y_idx, 0)) (\<lambda>n.
          bindE (set_ntype n Source G) (\<lambda>G1.
          bindE (getitem vd (x_idx, y_idx, N - 1)) (\<lambda>m.
            set_ntype m Sink G1))))"

definition mark_sources_and_sinks :: "int \<Rightarrow> vdict \<Rightarrow> graph \<Rightarrow> error + graph" where
  "mark_sources_and_sinks N vd G = foldE (mark_column N vd) (columns N) G"

text \<open>
  Edge direction: every edge of the list \<^verbatim>\<open>G.edges()\<close> (taken before the loop) that ends
  at a source or starts at a sink is removed and added in the other direction.
\<close>

definition reverse_edge :: "node \<Rightarrow> node \<Rightarrow> graph \<Rightarrow> error + graph" where
  "reverse_edge src sink G = bindE (remove_edge src sink G) (\<lambda>G1. Inr (add_edge sink src G1))"

definition orient_edge :: "edge \<Rightarrow> graph \<Rightarrow> error + graph" where
  "orient_edge e G =
     (case e of (src, sink) \<Rightarrow>
        bindE (node_ntype G sink) (\<lambda>t_sink.
          if t_sink = Source then reverse_edge src sink G
          else
            bindE (node_ntype G src) (\<lambda>t_src.
              if t_src = Sink then reverse_edge src sink G else Inr G)))"

definition orient_edges :: "graph \<Rightarrow> error + graph" where
  "orient_edges G = foldE orient_edge (edges G) G"

section \<open>Radius assignment\<close>

text \<open>
  Symmetric mode: \<^verbatim>\<open>G[src][sink]['radius'] = 1/((N+1) * np.sqrt(90*np.pi))\<close> for every
  edge.
\<close>

definition set_radius :: "edge \<Rightarrow> real \<Rightarrow> graph \<Rightarrow> graph" where
  "set_radius e r G = G\<lparr> radius := (radius G)(e \<mapsto> r) \<rparr>"

definition symmetric_radii :: "int \<Rightarrow> graph \<Rightarrow> graph" where
  "symmetric_radii N G =
     fold (\<lambda>e. set_radius e (1 / ((of_int N + 1) * sqrt (90 * pi)))) (edges G) G"

text \<open>
  Random mode: the \<open>i\<close>-th edge gets the \<open>i\<close>-th value that \<^verbatim>\<open>np.random.gamma(alpha, beta)\<close>
  returns, with \<open>alpha = 5\<close> and \<open>beta = scale_parm N\<close>. The generator is a parameter
  \<open>gamma\<close>: \<open>gamma alpha beta i\<close> is what its \<open>i\<close>-th call returns.
\<close>

definition scale_parm :: "int \<Rightarrow> real" where
  "scale_parm n = inverse (5 * (of_int n + 1) * sqrt (90 * pi))"

definition random_radii :: "(real \<Rightarrow> real \<Rightarrow> nat \<Rightarrow> real) \<Rightarrow> int \<Rightarrow> graph \<Rightarrow> graph" where
  "random_radii gamma N G =
     (let alpha = 5; beta = scale_parm N in
      fold (\<lambda>(i, e). set_radius e (gamma alpha beta i))
           (zip [0..<length (edges G)] (edges G)) G)"

text \<open>
  The repair passes. The body of the two nested loops over \<^verbatim>\<open>G.edges()\<close>: a pair with
  the same source endpoint is skipped; otherwise, when edge 1 has the greater
  \<^verbatim>\<open>center_dist\<close> and the smaller radius, the two radii are exchanged.
\<close>

definition repair_pair :: "edge \<Rightarrow> edge \<Rightarrow> graph \<Rightarrow> error + graph" where
  "repair_pair e1 e2 G =
     (if fst e1 = fst e2 then Inr G
      else
        bindE (getitem (center_dist G) e1) (\<lambda>c1.
        bindE (getitem (center_dist G) e2) (\<lambda>c2.
          if c1 > c2 then
            bindE (getitem (radius G) e1) (\<lambda>r1.
            bindE (getitem (radius G) e2) (\<lambda>r2.
              if r1 < r2 then
                bindE (getitem (radius G) e1) (\<lambda>temp_radius.
                bindE (getitem (radius G) e2) (\<lambda>r2'.
                  Inr (G\<lparr> radius := (radius G)(e1 \<mapsto> r2', e2 \<mapsto> temp_radius) \<rparr>)))
              else Inr G))
          else Inr G)))"

definition repair_edge :: "edge \<Rightarrow> graph \<Rightarrow> error + graph" where
  "repair_edge e1 G = foldE (repair_pair e1) (edges G) G"

definition repair_pass :: "graph \<Rightarrow> error + graph" where
  "repair_pass G = foldE repair_edge (edges G) G"

definition repair_passes :: "int \<Rightarrow> graph \<Rightarrow> error + graph" where
  "repair_passes radii_iters G = foldE (\<lambda>_. repair_pass) (py_range radii_iters) G"

section \<open>External collaborators\<close>

text \<open>
  Modelled from the spec: \<^verbatim>\<open>net_prep.calculate_lengths\<close> (module \<^verbatim>\<open>hemo.net_prep\<close> is not
  among the sources). It populates every edge's \<^verbatim>\<open>length\<close> with the Euclidean distance
  between the positions of its endpoints and has no other effect.
\<close>

definition euclidean :: "real \<times> real \<times> real \<Rightarrow> real \<times> real \<times> real \<Rightarrow> real" where
  "euclidean p q =
     (case p of (x1, y1, z1) \<Rightarrow> case q of (x2, y2, z2) \<Rightarrow>
        sqrt ((x1 - x2)\<^sup>2 + (y1 - y2)\<^sup>2 + (z1 - z2)\<^sup>2))"

definition calculate_length :: "edge \<Rightarrow> graph \<Rightarrow> error + graph" where
  "calculate_length e G =
     bindE (getitem (pos G) (fst e)) (\<lambda>p.
     bindE (getitem (pos G) (snd e)) (\<lambda>q.
       Inr (G\<lparr> edge_length := (edge_length G)(e \<mapsto> euclidean p q) \<rparr>)))"

definition calculate_lengths :: "graph \<Rightarrow> error + graph" where
  "calculate_lengths G = foldE calculate_length (edges G) G"

text \<open>
  Modelled from the spec: \<^verbatim>\<open>net_prep.prep_net_for_sims\<close> (module \<^verbatim>\<open>hemo.net_prep\<close> is not
  among the sources). It populates \<^verbatim>\<open>volume\<close>, \<^verbatim>\<open>inverse_transit_time\<close> and \<^verbatim>\<open>idx\<close> of every
  edge and the graph attributes \<^verbatim>\<open>source\<close> and \<^verbatim>\<open>sink\<close>; it creates no node and no edge.
  The values it computes are parameters of the model.
\<close>

record sim_prep =
  prep_volume :: "graph \<Rightarrow> edge \<Rightarrow> number"
  prep_inverse_transit_time :: "graph \<Rightarrow> edge \<Rightarrow> number"
  prep_idx :: "graph \<Rightarrow> edge \<Rightarrow> nat"
  prep_source :: "graph \<Rightarrow> node"
  prep_sink :: "graph \<Rightarrow> node"

definition prep_net_for_sims :: "sim_prep \<Rightarrow> graph \<Rightarrow> graph" where
  "prep_net_for_sims P G =
     G\<lparr> volume := (\<lambda>e. if e \<in> set (edges G) then Some (prep_volume P G e) else None),
        inverse_transit_time :=
          (\<lambda>e. if e \<in> set (edges G) then Some (prep_inverse_transit_time P G e) else None),
        idx := (\<lambda>e. if e \<in> set (edges G) then Some (prep_idx P G e) else None),
        g_source := Some (prep_source P G),
        g_sink := Some (prep_sink P G) \<rparr>"

section \<open>The network constructor\<close>

text \<open>
  \<^verbatim>\<open>create_network_multiple_sources_and_sinks(N, radii_iters=2, symmetric=False)\<close>. The
  keyword arguments \<^verbatim>\<open>space_volume\<close> and \<^verbatim>\<open>vascular_fraction\<close> are not used by the code.
  \<^verbatim>\<open>delta = 1 / (N + 1)\<close> divides two Python \<^verbatim>\<open>int\<close>s (\<open>py_truediv\<close>) and raises
  \<^verbatim>\<open>ZeroDivisionError\<close> when \<open>N = -1\<close>. \<open>build_lattice\<close> is the
  part up to and including the edge re-orientation.
\<close>

definition py_truediv :: "real \<Rightarrow> real \<Rightarrow> error + real" where
  "py_truediv a b = (if b = 0 then Inl ZeroDivisionError else Inr (a / b))"

definition build_lattice :: "int \<Rightarrow> error + graph" where
  "build_lattice N =
     bindE (py_truediv 1 (of_int (N + 1))) (\<lambda>delta.
       case add_lattice_nodes N delta (empty_graph\<lparr> g_N := Some N, g_delta := Some delta \<rparr>) of
         (vd, G0, counter) \<Rightarrow>
           bindE (add_lattice_edges N vd G0) (\<lambda>G1.
           bindE (mark_sources_and_sinks N vd G1) (\<lambda>G2.
             orient_edges G2)))"

definition assign_radii ::
  "(real \<Rightarrow> real \<Rightarrow> nat \<Rightarrow> real) \<Rightarrow> int \<Rightarrow> int \<Rightarrow> bool \<Rightarrow> graph \<Rightarrow> error + graph" where
  "assign_radii gamma N radii_iters symmetric G =
     (if \<not> symmetric then
        bindE (assign_distances_from_source_and_sink_nodes G) (\<lambda>G1.
          repair_passes radii_iters (random_radii gamma N G1))
      else Inr (symmetric_radii N G))"

definition create_network_multiple_sources_and_sinks ::
  "sim_prep \<Rightarrow> (real \<Rightarrow> real \<Rightarrow> nat \<Rightarrow> real) \<Rightarrow> int \<Rightarrow> int \<Rightarrow> bool \<Rightarrow> error + graph" where
  "create_network_multiple_sources_and_sinks P gamma N radii_iters symmetric =
     bindE (build_lattice N) (\<lambda>G.
     bindE (calculate_lengths G) (\<lambda>G3.
     bindE (assign_radii gamma N radii_iters symmetric G3) (\<lambda>G4.
       Inr (prep_net_for_sims P G4))))"

section \<open>Network metrics\<close>

text \<open>
  \<^verbatim>\<open>total_flow\<close>: \<^verbatim>\<open>q = 0\<close> (a Python \<^verbatim>\<open>int\<close>), then for every edge whose source endpoint is
  \<^verbatim>\<open>G.graph['source']\<close>, \<^verbatim>\<open>q += inverse_transit_time * volume\<close>.
\<close>

definition total_flow_step :: "graph \<Rightarrow> edge \<Rightarrow> number \<Rightarrow> error + number" where
  "total_flow_step G e q =
     (case e of (src, sink) \<Rightarrow>
        bindE (attr (g_source G)) (\<lambda>s.
          if src = s then
            bindE (getitem (inverse_transit_time G) (src, sink)) (\<lambda>itt.
            bindE (getitem (volume G) (src, sink)) (\<lambda>vol.
              Inr (num_add q (num_mul itt vol))))
          else Inr q))"

definition total_flow :: "graph \<Rightarrow> error + number" where
  "total_flow G = foldE (total_flow_step G) (edges G) (PyInt 0)"

text \<open>
  \<^verbatim>\<open>total_resistance\<close>: \<^verbatim>\<open>dp / q\<close> with \<^verbatim>\<open>dp = 25 * 133.322387415\<close>, a Python \<^verbatim>\<open>float\<close>, and
  \<open>q\<close> of the kind \<open>total_flow\<close> returned.
\<close>

definition total_resistance :: "graph \<Rightarrow> error + quotient" where
  "total_resistance G =
     (let dp = 25 * 133.322387415 in
      bindE (total_flow G) (\<lambda>q. float_truediv dp q))"

text \<open>
  The sum the flow is specified to be: over the edges that leave the designated source
  \<open>s\<close>, in edge order, of \<open>inverse_transit_time \<times> volume\<close>. \<open>source_flow_numpy\<close> says that
  one of the numbers in that sum is a \<^verbatim>\<open>numpy.float64\<close>.
\<close>

definition source_flow_sum :: "graph \<Rightarrow> node \<Rightarrow> real" where
  "source_flow_sum G s =
     sum_list (map (\<lambda>e. value_of (the (inverse_transit_time G e)) * value_of (the (volume G e)))
                   (filter (\<lambda>e. fst e = s) (edges G)))"

definition source_flow_numpy :: "graph \<Rightarrow> node \<Rightarrow> bool" where
  "source_flow_numpy G s =
     list_ex (\<lambda>e. is_numpy (the (inverse_transit_time G e)) \<or> is_numpy (the (volume G e)))
             (filter (\<lambda>e. fst e = s) (edges G))"













section \<open>Example networks\<close>

text \<open>
  A prepared network with three nodes and the edges \<open>0 \<rightarrow> 1\<close>, \<open>0 \<rightarrow> 2\<close>, \<open>1 \<rightarrow> 2\<close>, whose
  designated source is node 0 and whose designated sink is node 2.
\<close>

definition flow_example :: graph where
  "flow_example =
     empty_graph\<lparr> node_order := [0, 1, 2],
       succ := (\<lambda>_. [])(0 := [1, 2], 1 := [2]),
       volume := [(0, 1) \<mapsto> NpFloat 4, (0, 2) \<mapsto> NpFloat 2, (1, 2) \<mapsto> NpFloat 7],
       inverse_transit_time :=
         [(0, 1) \<mapsto> PyFloat 2, (0, 2) \<mapsto> PyFloat 3, (1, 2) \<mapsto> PyFloat 5],
       idx := [(0, 1) \<mapsto> 0, (0, 2) \<mapsto> 1, (1, 2) \<mapsto> 2],
       g_source := Some 0, g_sink := Some 2 \<rparr>"

text \<open>
  What the specification says \<open>central_difference\<close> computes: \<open>d1\<close> from the edge's source
  endpoint to the designated source, \<open>d2\<close> from the edge's sink endpoint to the designated
  sink, each with the path from the anchor to the edge's other endpoint substituted when
  the direct query has no path.
\<close>

definition central_difference_spec :: "graph \<Rightarrow> edge \<Rightarrow> error + int" where
  "central_difference_spec G e =
     (case e of (u, v) \<Rightarrow>
        bindE (attr (g_source G)) (\<lambda>s.
        bindE (case shortest_path_length G u s of
                 Inr d \<Rightarrow> Inr d
               | Inl err \<Rightarrow> if err = NetworkXNoPath then shortest_path_length G s v
                            else Inl err) (\<lambda>d1.
        bindE (attr (g_sink G)) (\<lambda>t.
        bindE (case shortest_path_length G v t of
                 Inr d \<Rightarrow> Inr d
               | Inl err \<Rightarrow> if err = NetworkXNoPath then shortest_path_length G t u
                            else Inl err) (\<lambda>d2.
          Inr \<bar>d1 - d2\<bar>)))))"

text \<open>
  A chain \<open>0 \<rightarrow> 1 \<rightarrow> 2\<close> from the designated source 0 to the designated sink 2, the first
  edge with radius 1 and the second with radius 2.
\<close>

definition chain_example :: graph where
  "chain_example =
     empty_graph\<lparr> node_order := [0, 1, 2],
       succ := (\<lambda>_. [])(0 := [1], 1 := [2]),
       radius := [(0, 1) \<mapsto> 1, (1, 2) \<mapsto> 2],
       g_source := Some 0, g_sink := Some 2 \<rparr>"

text \<open>
  The first-match policy of \<open>make_switches\<close>, stated directly: edge 2 is a partner of
  edge 1 when the two differ in their source endpoints and in their sink endpoints,
  edge 1 has the smaller central difference and the larger radius; edge 1 exchanges
  radii with its first partner in edge order, if it has one.
\<close>

definition swap_radii :: "edge \<Rightarrow> edge \<Rightarrow> graph \<Rightarrow> graph" where
  "swap_radii e1 e2 G = G\<lparr> radius := (radius G)(e1 := radius G e2, e2 := radius G e1) \<rparr>"

definition switch_partner :: "graph \<Rightarrow> edge \<Rightarrow> edge \<Rightarrow> bool" where
  "switch_partner G e1 e2 \<longleftrightarrow>
     fst e1 \<noteq> fst e2 \<and> snd e1 \<noteq> snd e2 \<and>
     projr (central_difference G e1) < projr (central_difference G e2) \<and>
     the (radius G e1) > the (radius G e2)"

definition switch_first_match :: "edge \<Rightarrow> graph \<Rightarrow> graph" where
  "switch_first_match e1 G =
     (case find (switch_partner G e1) (edges G) of
        None \<Rightarrow> G
      | Some e2 \<Rightarrow> swap_radii e1 e2 G)"

definition switch_ready :: "graph \<Rightarrow> bool" where
  "switch_ready G \<longleftrightarrow>
     list_all (\<lambda>e. \<not> isl (central_difference G e) \<and> radius G e \<noteq> None) (edges G)"

text \<open>
  The repair pass, stated directly: a pair of edges is exchanged when the two have
  different source endpoints, edge 1 has the strictly greater \<^verbatim>\<open>center_dist\<close> and the
  strictly smaller radius; a sweep applies this to every ordered pair of edges, edge 1
  in the outer and edge 2 in the inner loop, each exchange acting on the radii as they
  then are.
\<close>

definition repair_swap :: "edge \<Rightarrow> edge \<Rightarrow> graph \<Rightarrow> graph" where
  "repair_swap e1 e2 G =
     (if fst e1 \<noteq> fst e2 \<and>
         the (center_dist G e1) > the (center_dist G e2) \<and>
         the (radius G e1) < the (radius G e2)
      then swap_radii e1 e2 G else G)"

definition repair_sweep :: "graph \<Rightarrow> graph" where
  "repair_sweep G = fold (\<lambda>e1. fold (\<lambda>e2. repair_swap e1 e2) (edges G)) (edges G) G"

definition repair_ready :: "graph \<Rightarrow> bool" where
  "repair_ready G \<longleftrightarrow>
     list_all (\<lambda>e. center_dist G e \<noteq> None \<and> radius G e \<noteq> None) (edges G)"

text \<open>Two graphs with the same nodes, edges and node attributes.\<close>

definition same_structure :: "graph \<Rightarrow> graph \<Rightarrow> bool" where
  "same_structure G H \<longleftrightarrow>
     node_order H = node_order G \<and> succ H = succ G \<and> ntype H = ntype G \<and> pos H = pos G"

text \<open>
  The distances the specification gives an edge: the least graph distance from a
  source-role node that reaches the edge's first endpoint, the least graph distance from
  the edge's second endpoint to a sink-role node it reaches, and 0 when there is no such
  node.
\<close>

definition nearest_source_distance :: "graph \<Rightarrow> node \<Rightarrow> int" where
  "nearest_source_distance G u =
     (let D = {int (graph_distance G s u) | s.
                 s \<in> set (node_order G) \<and> ntype G s = Some Source \<and> reachable G s u}
      in if D = {} then 0 else Min D)"

definition nearest_sink_distance :: "graph \<Rightarrow> node \<Rightarrow> int" where
  "nearest_sink_distance G v =
     (let D = {int (graph_distance G v t) | t.
                 t \<in> set (node_order G) \<and> ntype G t = Some Sink \<and> reachable G v t}
      in if D = {} then 0 else Min D)"

definition rank_edge :: "graph \<Rightarrow> edge \<Rightarrow> graph \<Rightarrow> graph" where
  "rank_edge G e H =
     H\<lparr> src_dist := (src_dist H)(e \<mapsto> nearest_source_distance G (fst e)),
        sink_dist := (sink_dist H)(e \<mapsto> nearest_sink_distance G (snd e)),
        center_dist := (center_dist H)
          (e \<mapsto> \<bar>nearest_source_distance G (fst e) - nearest_sink_distance G (snd e)\<bar>) \<rparr>"

text \<open>
  A graph to rank: sources 0 and 3, sink 2, edges \<open>0 \<rightarrow> 1\<close>, \<open>1 \<rightarrow> 2\<close>, \<open>3 \<rightarrow> 2\<close>. No source
  reaches node 3 but node 3 itself, and node 3 reaches neither node 0 nor node 1.
\<close>

definition rank_example :: graph where
  "rank_example =
     empty_graph\<lparr> node_order := [0, 1, 2, 3],
       succ := (\<lambda>_. [])(0 := [1], 1 := [2], 3 := [2]),
       ntype := [0 \<mapsto> Source, 1 \<mapsto> Internal, 2 \<mapsto> Sink, 3 \<mapsto> Source] \<rparr>"

text \<open>
  The lattice in closed form. The node loop numbers the index triples in loop order, so
  the node at \<open>(x, y, z)\<close> has the identifier \<open>(x N + y) N + z\<close>; its forward neighbours
  are the next triples along the three axes that are still inside the grid; its role is
  sink on the checkerboard of the face \<open>z = N - 1\<close> (written last), source on the
  checkerboard of the face \<open>z = 0\<close>, internal elsewhere.
\<close>

definition node_id :: "int \<Rightarrow> int \<times> int \<times> int \<Rightarrow> node" where
  "node_id N p = (case p of (x, y, z) \<Rightarrow> (x * N + y) * N + z)"

definition position :: "real \<Rightarrow> int \<times> int \<times> int \<Rightarrow> real \<times> real \<times> real" where
  "position delta p =
     (case p of (x, y, z) \<Rightarrow>
        (delta * (of_int x + 1), delta * (of_int y + 1), delta * (of_int z + 1)))"

definition forward_neighbours :: "int \<Rightarrow> int \<times> int \<times> int \<Rightarrow> (int \<times> int \<times> int) list" where
  "forward_neighbours N p =
     (case p of (x, y, z) \<Rightarrow>
        (if x < N - 1 then [(x + 1, y, z)] else []) @
        (if y < N - 1 then [(x, y + 1, z)] else []) @
        (if z < N - 1 then [(x, y, z + 1)] else []))"

definition lattice_role :: "int \<Rightarrow> int \<times> int \<times> int \<Rightarrow> role" where
  "lattice_role N p =
     (case p of (x, y, z) \<Rightarrow>
        if y mod 2 = x mod 2 \<and> z = N - 1 then Sink
        else if y mod 2 = x mod 2 \<and> z = 0 then Source
        else Internal)"

text \<open>
  The direction the re-orientation loop gives an edge: reversed when it ends at a source
  or starts at a sink.
\<close>

definition oriented :: "graph \<Rightarrow> edge \<Rightarrow> edge" where
  "oriented G e =
     (if ntype G (snd e) = Some Source \<or> ntype G (fst e) = Some Sink
      then (snd e, fst e) else e)"

text \<open>
  The edges the edge loop creates, in the order in which it creates them: from every
  node to its forward neighbours. \<open>lattice_built N G\<close> describes the graph after the
  re-orientation loop: the nodes in loop order with their roles and positions, and as
  edges the forward edges, each in the direction the re-orientation gives it.
\<close>

definition lattice_edges :: "int \<Rightarrow> edge list" where
  "lattice_edges N =
     concat (map (\<lambda>p. map (\<lambda>q. (node_id N p, node_id N q)) (forward_neighbours N p))
                 (grid N))"

definition lattice_built :: "int \<Rightarrow> graph \<Rightarrow> bool" where
  "lattice_built N G \<longleftrightarrow>
     wf_graph G \<and>
     node_order G = map (node_id N) (grid N) \<and>
     list_all (\<lambda>p. ntype G (node_id N p) = Some (lattice_role N p) \<and>
                    pos G (node_id N p) = Some (position (1 / (of_int N + 1)) p)) (grid N) \<and>
     set (edges G) = oriented G ` set (lattice_edges N) \<and>
     length (edges G) = length (lattice_edges N)"

text \<open>
  The lattice of resolution 2 after the re-orientation loop: eight nodes, sources 0 and
  6, sinks 1 and 7, twelve edges.
\<close>

definition lattice2 :: graph where
  "lattice2 =
     empty_graph\<lparr> g_N := Some 2, g_delta := Some (1 / 3),
       node_order := [0, 1, 2, 3, 4, 5, 6, 7],
       succ := (\<lambda>_. [])(0 := [4, 2, 1], 2 := [3], 3 := [7, 1], 4 := [5], 5 := [7, 1],
                         6 := [7, 2, 4]),
       ntype := [0 \<mapsto> Source, 1 \<mapsto> Sink, 2 \<mapsto> Internal, 3 \<mapsto> Internal,
                 4 \<mapsto> Internal, 5 \<mapsto> Internal, 6 \<mapsto> Source, 7 \<mapsto> Sink],
       pos := [0 \<mapsto> (1 / 3, 1 / 3, 1 / 3), 1 \<mapsto> (1 / 3, 1 / 3, 2 / 3),
               2 \<mapsto> (1 / 3, 2 / 3, 1 / 3), 3 \<mapsto> (1 / 3, 2 / 3, 2 / 3),
               4 \<mapsto> (2 / 3, 1 / 3, 1 / 3), 5 \<mapsto> (2 / 3, 1 / 3, 2 / 3),
               6 \<mapsto> (2 / 3, 2 / 3, 1 / 3), 7 \<mapsto> (2 / 3, 2 / 3, 2 / 3)] \<rparr>"

text \<open>
  Twelve values for the random generator to return, in the order of the edges of
  \<open>lattice2\<close>, and values for the preparation step.
\<close>

definition gamma_example :: "real \<Rightarrow> real \<Rightarrow> nat \<Rightarrow> real" where
  "gamma_example alpha beta i = [5, 5, 3, 1 / 2, 5, 1, 1 / 2, 5, 5, 1 / 2, 5, 5] ! i"

definition prep_example :: sim_prep where
  "prep_example =
     \<lparr> prep_volume = (\<lambda>G e. NpFloat 1), prep_inverse_transit_time = (\<lambda>G e. NpFloat 1),
       prep_idx = (\<lambda>G e. 0), prep_source = (\<lambda>G. 0), prep_sink = (\<lambda>G. 1) \<rparr>"

text \<open>The sum of the coordinates of an index triple.\<close>

definition coord_sum :: "int \<times> int \<times> int \<Rightarrow> int" where
  "coord_sum p = (case p of (x, y, z) \<Rightarrow> x + y + z)"

section \<open>Basic facts about exceptions as values\<close>

lemma bindE_Inr [simp]: "bindE (Inr x) f = f x"
  by (simp add: bindE_def)

lemma bindE_Inl [simp]: "bindE (Inl e) f = Inl e"
  by (simp add: bindE_def)

lemma bindE_eq_Inr_iff: "bindE m f = Inr y \<longleftrightarrow> (\<exists>x. m = Inr x \<and> f x = Inr y)"
  by (cases m) simp_all

lemma getitem_Some [simp]: "d k = Some v \<Longrightarrow> getitem d k = Inr v"
  by (simp add: getitem_def)

lemma getitem_None [simp]: "d k = None \<Longrightarrow> getitem d k = Inl KeyError"
  by (simp add: getitem_def)

lemma attr_simps [simp]: "attr (Some v) = Inr v" "attr None = Inl KeyError"
  by (simp_all add: attr_def)

lemma foldE_append: "foldE f (xs @ ys) s = bindE (foldE f xs s) (foldE f ys)"
  by (induction xs arbitrary: s) (auto simp: bindE_def split: sum.splits)

lemma foldE_total:
  assumes "\<And>x s. x \<in> set xs \<Longrightarrow> f x s = Inr (g x s)"
  shows "foldE f xs s = Inr (fold g xs s)"
  using assms by (induction xs arbitrary: s) simp_all

section \<open>Total flow and total resistance\<close>

lemma value_of_num_mul [simp]: "value_of (num_mul a b) = value_of a * value_of b"
  by (cases a; cases b) simp_all

lemma value_of_num_add [simp]: "value_of (num_add a b) = value_of a + value_of b"
  by (cases a; cases b) simp_all

lemma is_numpy_num_mul [simp]: "is_numpy (num_mul a b) = (is_numpy a \<or> is_numpy b)"
  by (cases a; cases b) simp_all

lemma is_numpy_num_add [simp]: "is_numpy (num_add a b) = (is_numpy a \<or> is_numpy b)"
  by (cases a; cases b) simp_all

lemma float_truediv_kind:
  "float_truediv a q =
     (if value_of q \<noteq> 0
      then Inr (Finite ((if is_numpy q then NpFloat else PyFloat) (a / value_of q)))
      else if \<not> is_numpy q then Inl ZeroDivisionError
      else if 0 < a then Inr NpInf
      else if a < 0 then Inr NpNegInf
      else Inr NpNan)"
  by (cases q) (simp_all add: float_truediv_def)

lemma total_flow_step_ready:
  assumes "g_source G = Some s"
    and "fst e = s \<Longrightarrow> inverse_transit_time G e \<noteq> None \<and> volume G e \<noteq> None"
  shows "total_flow_step G e q =
           Inr (if fst e = s
                then num_add q (num_mul (the (inverse_transit_time G e)) (the (volume G e)))
                else q)"
  using assms by (cases e) (auto simp: total_flow_step_def)

lemma fold_flow_value:
  "value_of (fold (\<lambda>e q. if P e then num_add q (h e) else q) es q0) =
     value_of q0 + sum_list (map (\<lambda>e. value_of (h e)) (filter P es))"
  by (induction es arbitrary: q0) simp_all

lemma fold_flow_numpy:
  "is_numpy (fold (\<lambda>e q. if P e then num_add q (h e) else q) es q0) =
     (is_numpy q0 \<or> list_ex (\<lambda>e. is_numpy (h e)) (filter P es))"
  by (induction es arbitrary: q0) auto

text \<open>
  Claim C8. On a simulation-ready graph (the designated source is set, and every edge
  leaving it carries \<^verbatim>\<open>inverse_transit_time\<close> and \<^verbatim>\<open>volume\<close>), \<open>total_flow\<close> returns a number
  whose value is the sum of \<open>inverse_transit_time \<times> volume\<close> over exactly the edges whose
  source endpoint is the designated source, and which is a \<^verbatim>\<open>numpy.float64\<close> exactly when
  one of the numbers summed is. When that flow is not zero, \<open>total_resistance\<close> returns
  \<open>25 \<times> 133.322387415\<close> divided by it. When the flow is zero, \<open>total_resistance\<close> raises
  \<^verbatim>\<open>ZeroDivisionError\<close> only if the flow is a Python number (as it is when no edge leaves
  the source); a zero flow that is a \<^verbatim>\<open>numpy.float64\<close> makes it return infinity.
\<close>

theorem total_flow_total_resistance:
  assumes "g_source G = Some s"
    and "\<forall>e \<in> set (edges G). fst e = s \<longrightarrow>
           inverse_transit_time G e \<noteq> None \<and> volume G e \<noteq> None"
  shows "\<exists>q. total_flow G = Inr q \<and>
           value_of q = source_flow_sum G s \<and>
           is_numpy q = source_flow_numpy G s \<and>
           total_resistance G =
             (if source_flow_sum G s \<noteq> 0
              then Inr (Finite ((if source_flow_numpy G s then NpFloat else PyFloat)
                                  (25 * 133.322387415 / source_flow_sum G s)))
              else if source_flow_numpy G s then Inr NpInf
              else Inl ZeroDivisionError)"
proof -
  define q where
    "q = fold (\<lambda>e q. if fst e = s
                      then num_add q (num_mul (the (inverse_transit_time G e)) (the (volume G e)))
                      else q) (edges G) (PyInt 0)"
  have flow: "total_flow G = Inr q"
    unfolding total_flow_def q_def
    by (rule foldE_total) (use assms in \<open>simp add: total_flow_step_ready\<close>)
  have val: "value_of q = source_flow_sum G s"
    unfolding q_def fold_flow_value by (simp add: source_flow_sum_def)
  have np: "is_numpy q = source_flow_numpy G s"
    unfolding q_def fold_flow_numpy by (simp add: source_flow_numpy_def)
  have "total_resistance G = float_truediv (25 * 133.322387415) q"
    by (simp add: total_resistance_def flow)
  then show ?thesis
    using flow val np by (simp add: float_truediv_kind)
qed

lemma edges_flow_example: "edges flow_example = [(0, 1), (0, 2), (1, 2)]"
  by (simp add: edges_def flow_example_def empty_graph_def)

text \<open>
  The example network has flow \<open>2 \<times> 4 + 3 \<times> 2 = 14\<close> out of node 0, a \<^verbatim>\<open>numpy.float64\<close>
  because the volumes are; with node 2 as the designated source no edge leaves the
  source, the flow is the Python \<^verbatim>\<open>int\<close> zero and the resistance is the exception.
\<close>

theorem total_flow_total_resistance_witness:
  "total_flow flow_example = Inr (NpFloat 14) \<and>
   total_resistance flow_example = Inr (Finite (NpFloat (25 * 133.322387415 / 14))) \<and>
   total_resistance (flow_example\<lparr> g_source := Some 2 \<rparr>) = Inl ZeroDivisionError"
proof -
  let ?G2 = "flow_example\<lparr> g_source := Some 2 \<rparr>"
  have e2: "edges ?G2 = [(0, 1), (0, 2), (1, 2)]"
    by (simp add: edges_def flow_example_def empty_graph_def)
  have s1: "source_flow_sum flow_example 0 = 14"
    by (simp add: source_flow_sum_def edges_flow_example)
       (simp add: flow_example_def empty_graph_def)
  have n1: "source_flow_numpy flow_example 0"
    by (simp add: source_flow_numpy_def edges_flow_example)
       (simp add: flow_example_def empty_graph_def)
  have s2: "source_flow_sum ?G2 2 = 0"
    by (simp add: source_flow_sum_def e2)
  have n2: "\<not> source_flow_numpy ?G2 2"
    by (simp add: source_flow_numpy_def e2)
  have h1: "g_source flow_example = Some 0"
    by (simp add: flow_example_def)
  have h2: "\<forall>e \<in> set (edges flow_example). fst e = 0 \<longrightarrow>
              inverse_transit_time flow_example e \<noteq> None \<and> volume flow_example e \<noteq> None"
    by (simp add: edges_flow_example) (simp add: flow_example_def empty_graph_def)
  have h3: "\<forall>e \<in> set (edges ?G2). fst e = 2 \<longrightarrow>
              inverse_transit_time ?G2 e \<noteq> None \<and> volume ?G2 e \<noteq> None"
    by (simp add: e2)
  have kind: "q = NpFloat x" if "is_numpy q" "value_of q = x" for q x
    using that by (cases q) simp_all
  show ?thesis
    using total_flow_total_resistance [OF h1 h2]
      total_flow_total_resistance [of ?G2 2, OF _ h3]
    by (auto simp add: s1 s2 n1 n2 dest: kind)
qed

text \<open>
  A zero flow does not always raise. When the volumes of the example network are the
  \<^verbatim>\<open>numpy.float64\<close> zero, the flow out of node 0 is the \<^verbatim>\<open>numpy.float64\<close> zero, and
  \<open>total_resistance\<close> returns infinity where a \<^verbatim>\<open>ZeroDivisionError\<close> was claimed.
\<close>

theorem total_resistance_numpy_zero:
  "total_flow (flow_example\<lparr> volume := (\<lambda>e. Some (NpFloat 0)) \<rparr>) = Inr (NpFloat 0) \<and>
   total_resistance (flow_example\<lparr> volume := (\<lambda>e. Some (NpFloat 0)) \<rparr>) = Inr NpInf"
proof -
  let ?G = "flow_example\<lparr> volume := (\<lambda>e. Some (NpFloat 0)) \<rparr>"
  have e: "edges ?G = [(0, 1), (0, 2), (1, 2)]"
    by (simp add: edges_def flow_example_def empty_graph_def)
  have flow: "total_flow ?G = Inr (NpFloat 0)"
    unfolding total_flow_def e
    by (simp add: total_flow_step_def flow_example_def empty_graph_def)
  then show ?thesis
    by (simp add: total_resistance_def float_truediv_def)
qed

section \<open>The tracer curve\<close>






section \<open>Central difference and radius switches: proofs\<close>

lemma foldE_invariant:
  assumes "I s"
    and "\<And>x s. x \<in> set xs \<Longrightarrow> I s \<Longrightarrow> f x s = Inr (g x s) \<and> I (g x s)"
  shows "foldE f xs s = Inr (fold g xs s) \<and> I (fold g xs s)"
  using assms by (induction xs arbitrary: s) simp_all

lemma edges_radius_update [simp]: "edges (G\<lparr> radius := r \<rparr>) = edges G"
  by (simp add: edges_def)

lemma bfs_level_radius_update [simp]: "bfs_level (G\<lparr> radius := r \<rparr>) s k = bfs_level G s k"
  by (induction k) simp_all

lemma shortest_path_length_radius_update [simp]:
  "shortest_path_length (G\<lparr> radius := r \<rparr>) s t = shortest_path_length G s t"
  by (simp add: shortest_path_length_def)

lemma dist_edge_node_radius_update [simp]:
  "dist_edge_node (G\<lparr> radius := r \<rparr>) e n = dist_edge_node G e n"
  by (simp add: dist_edge_node_def split: prod.splits sum.splits)

lemma central_difference_radius_update [simp]:
  "central_difference (G\<lparr> radius := r \<rparr>) e = central_difference G e"
  by (simp add: central_difference_def)

lemma scan_partners_find:
  assumes "\<forall>e \<in> set es. \<not> isl (central_difference G e) \<and> radius G e \<noteq> None"
    and "central_difference G e1 = Inr cd1" and "radius G e1 = Some r1"
  shows "scan_partners G e1 cd1 r1 es =
           Inr (case find (switch_partner G e1) es of
                  None \<Rightarrow> G
                | Some e2 \<Rightarrow> swap_radii e1 e2 G)"
  using assms(1)
proof (induction es)
  case Nil
  then show ?case by simp
next
  case (Cons e2 es)
  from Cons.prems obtain cd2 r2 where e2: "central_difference G e2 = Inr cd2" "radius G e2 = Some r2"
    by (cases "central_difference G e2") auto
  have IH: "scan_partners G e1 cd1 r1 es =
           Inr (case find (switch_partner G e1) es of
                  None \<Rightarrow> G
                | Some e2 \<Rightarrow> swap_radii e1 e2 G)"
    using Cons by simp
  have step: "scan_partners G e1 cd1 r1 (e2 # es) =
           (if switch_partner G e1 e2 then Inr (swap_radii e1 e2 G)
            else scan_partners G e1 cd1 r1 es)"
    by (auto simp: e2 assms(2,3) switch_partner_def swap_radii_def)
  show ?case
    unfolding step IH by simp
qed

lemma switch_edge_first_match:
  assumes "switch_ready G" and "e1 \<in> set (edges G)"
  shows "switch_edge e1 G = Inr (switch_first_match e1 G)"
proof -
  from assms obtain cd1 r1 where e1: "central_difference G e1 = Inr cd1" "radius G e1 = Some r1"
    by (cases "central_difference G e1") (auto simp: switch_ready_def list_all_iff)
  show ?thesis
    using assms(1) scan_partners_find[OF _ e1, of "edges G"]
    by (simp add: switch_edge_def e1 switch_first_match_def switch_ready_def list_all_iff)
qed

lemma switch_first_match_frame:
  assumes "switch_ready G" and "e1 \<in> set (edges G)"
  shows "switch_ready (switch_first_match e1 G) \<and> edges (switch_first_match e1 G) = edges G"
proof (cases "find (switch_partner G e1) (edges G)")
  case None
  then show ?thesis using assms by (simp add: switch_first_match_def)
next
  case (Some e2)
  then have "e2 \<in> set (edges G)"
    by (auto simp: find_Some_iff)
  then show ?thesis
    using assms Some
    by (auto simp: switch_first_match_def swap_radii_def switch_ready_def list_all_iff)
qed

text \<open>
  Claim C3, as amended. On a graph whose edges all have a central difference and a
  radius, \<open>make_switches\<close> visits every edge once, as edge 1, in edge order (one sweep,
  not a fixed point); edge 1 exchanges radii with the first edge 2 in edge order that
  has another source endpoint and another sink endpoint, a strictly greater central
  difference and a strictly smaller radius, and the scan of its partners stops there.
  A pair with the same source endpoint or the same sink endpoint is never exchanged.
\<close>

theorem make_switches_first_match:
  assumes "switch_ready G"
  shows "make_switches G = Inr (fold switch_first_match (edges G) G) \<and>
         (\<forall>H e1 e2. switch_partner H e1 e2 \<longrightarrow> fst e1 \<noteq> fst e2 \<and> snd e1 \<noteq> snd e2)"
proof -
  have "foldE switch_edge (edges G) G = Inr (fold switch_first_match (edges G) G) \<and>
        (switch_ready (fold switch_first_match (edges G) G) \<and>
         edges (fold switch_first_match (edges G) G) = edges G)"
    by (rule foldE_invariant[where I = "\<lambda>H. switch_ready H \<and> edges H = edges G"])
       (use assms in \<open>auto simp: switch_edge_first_match switch_first_match_frame\<close>)
  then show ?thesis
    by (simp add: make_switches_def switch_partner_def)
qed


lemma chain_simps:
  "node_order chain_example = [0, 1, 2]"
  "succ chain_example = (\<lambda>_. [])(0 := [1], 1 := [2])"
  "g_source chain_example = Some 0" "g_sink chain_example = Some 2"
  "radius chain_example = [(0, 1) \<mapsto> 1, (1, 2) \<mapsto> 2]"
  by (simp_all add: chain_example_def empty_graph_def)

lemma edges_chain: "edges chain_example = [(0, 1), (1, 2)]"
  by (simp add: edges_def chain_simps)

lemma upt_3: "[0..<3] = [0, 1, 2]"
  by (simp add: upt_rec)

lemma shortest_path_length_chain:
  "shortest_path_length chain_example 0 0 = Inr 0"
  "shortest_path_length chain_example 0 2 = Inr 2"
  "shortest_path_length chain_example 1 2 = Inr 1"
  "shortest_path_length chain_example 1 0 = Inl NetworkXNoPath"
  by (simp_all add: shortest_path_length_def chain_simps upt_3 numeral_2_eq_2)

lemma central_difference_chain:
  "central_difference chain_example (0, 1) = Inr 2"
  "central_difference chain_example (1, 2) = Inr 1"
  by (simp_all add: central_difference_def dist_edge_node_def shortest_path_length_chain chain_simps)

text \<open>
  Claim C2. The claim, like the docstring of \<open>central_difference\<close>, measures \<open>d2\<close> from the
  edge's sink endpoint to the designated sink. The code measures both distances from the
  edge's source endpoint: on the chain \<open>0 \<rightarrow> 1 \<rightarrow> 2\<close> with designated source 0 and sink 2
  and the edge \<open>(0, 1)\<close>, it returns \<open>|0 - 2| = 2\<close>, where the claimed value is
  \<open>|0 - 1| = 1\<close>.
\<close>

theorem central_difference_from_source_endpoint:
  "central_difference chain_example (0, 1) = Inr 2 \<and>
   central_difference_spec chain_example (0, 1) = Inr 1"
  by (simp add: central_difference_def central_difference_spec_def dist_edge_node_def
      shortest_path_length_chain chain_simps)

text \<open>
  On the chain, edge \<open>(1, 2)\<close> has central difference 1 and radius 2, edge \<open>(0, 1)\<close> has
  central difference 2 and radius 1: the sweep exchanges the two radii.
\<close>

theorem make_switches_first_match_witness:
  "switch_ready chain_example \<and>
   make_switches chain_example = Inr (swap_radii (1, 2) (0, 1) chain_example)"
proof -
  have ready: "switch_ready chain_example"
    by (simp add: switch_ready_def edges_chain central_difference_chain chain_simps)
  have p: "\<not> switch_partner chain_example (0, 1) (0, 1)"
    "\<not> switch_partner chain_example (0, 1) (1, 2)"
    "switch_partner chain_example (1, 2) (0, 1)"
    by (simp_all add: switch_partner_def central_difference_chain chain_simps)
  have "fold switch_first_match (edges chain_example) chain_example =
          swap_radii (1, 2) (0, 1) chain_example"
    by (simp add: edges_chain switch_first_match_def p)
  with make_switches_first_match [OF ready] ready show ?thesis
    by simp
qed

text \<open>
  Claim C3 as stated fails: the edges \<open>(0, 1)\<close> and \<open>(1, 2)\<close> of the chain share the
  endpoint 1, and \<open>make_switches\<close> exchanges their radii.
\<close>

theorem make_switches_swaps_chained_edges:
  "make_switches chain_example =
     Inr (chain_example\<lparr> radius := [(0, 1) \<mapsto> 2, (1, 2) \<mapsto> 1] \<rparr>) \<and>
   radius chain_example (0, 1) = Some 1 \<and> radius chain_example (1, 2) = Some 2 \<and>
   snd (0 :: int, 1 :: int) = fst (1 :: int, 2 :: int)"
proof -
  have "[(0 :: int, 1 :: int) \<mapsto> 1 :: real, (1, 2) \<mapsto> 1, (0, 1) \<mapsto> 2] = [(0, 1) \<mapsto> 2, (1, 2) \<mapsto> 1]"
    by (auto simp: fun_eq_iff)
  then show ?thesis
    by (simp add: make_switches_def edges_chain switch_edge_def central_difference_chain
      chain_simps)
qed

section \<open>Shortest paths and distance ranking: proofs\<close>

inductive_cases walk_zeroE: "walk G s 0 v"
inductive_cases walk_SucE: "walk G s (Suc k) v"

lemma bfs_level_walk: "v \<in> set (bfs_level G s k) \<longleftrightarrow> walk G s k v"
proof (induction k arbitrary: v)
  case 0
  show ?case by (auto intro: walk.intros elim: walk_zeroE)
next
  case (Suc k)
  have "v \<in> set (bfs_level G s (Suc k)) \<longleftrightarrow>
          (\<exists>u. u \<in> set (bfs_level G s k) \<and> v \<in> set (succ G u))"
    by auto
  also have "\<dots> \<longleftrightarrow> (\<exists>u. walk G s k u \<and> v \<in> set (succ G u))"
    by (simp add: Suc)
  also have "\<dots> \<longleftrightarrow> walk G s (Suc k) v"
    by (auto intro: walk_step elim: walk_SucE)
  finally show ?case .
qed

lemma walk_in_nodes:
  assumes "wf_graph G" "s \<in> set (node_order G)" "walk G s k v"
  shows "v \<in> set (node_order G)"
  using assms(3,1,2) by (induction rule: walk.induct) (auto simp: wf_graph_def)

lemma walk_graph_distance:
  assumes "walk G s k v"
  shows "walk G s (graph_distance G s v) v" "graph_distance G s v \<le> k"
  unfolding graph_distance_def using assms by (auto intro: LeastI Least_le)

lemma reachable_graph_distance:
  "reachable G s v \<Longrightarrow> walk G s (graph_distance G s v) v"
  by (auto simp: reachable_def walk_graph_distance)

text \<open>A node at distance \<open>j + 1\<close> has a predecessor at distance \<open>j\<close>.\<close>

lemma distance_predecessor:
  assumes "reachable G s v" "graph_distance G s v = Suc j"
  shows "\<exists>u. reachable G s u \<and> graph_distance G s u = j"
proof -
  from assms have "walk G s (Suc j) v"
    using reachable_graph_distance by fastforce
  then obtain u where u: "walk G s j u" "v \<in> set (succ G u)"
    by (auto elim: walk_SucE)
  have "graph_distance G s u \<le> j"
    using u(1) by (rule walk_graph_distance)
  moreover have "\<not> graph_distance G s u < j"
  proof
    assume less: "graph_distance G s u < j"
    have "walk G s (Suc (graph_distance G s u)) v"
      using walk_graph_distance(1)[OF u(1)] u(2) by (rule walk_step)
    then have "graph_distance G s v \<le> Suc (graph_distance G s u)"
      by (rule walk_graph_distance)
    with less assms(2) show False by simp
  qed
  ultimately have "graph_distance G s u = j" by simp
  with u(1) show ?thesis by (auto simp: reachable_def)
qed

lemma distance_levels:
  assumes "reachable G s t" "j \<le> graph_distance G s t"
  shows "\<exists>u. reachable G s u \<and> graph_distance G s u = j"
proof -
  have "\<exists>u. reachable G s u \<and> graph_distance G s u = graph_distance G s t - i" for i
  proof (induction i)
    case 0
    show ?case using assms(1) by auto
  next
    case (Suc i)
    then obtain u where u: "reachable G s u" "graph_distance G s u = graph_distance G s t - i"
      by blast
    show ?case
    proof (cases "i < graph_distance G s t")
      case True
      then have "graph_distance G s u = Suc (graph_distance G s t - Suc i)"
        using u(2) by simp
      from distance_predecessor[OF u(1) this] show ?thesis .
    next
      case False
      then show ?thesis using u by auto
    qed
  qed
  from this[of "graph_distance G s t - j"] assms(2) show ?thesis by simp
qed

lemma graph_distance_bound:
  assumes "wf_graph G" "s \<in> set (node_order G)" "reachable G s t"
  shows "graph_distance G s t < length (node_order G)"
proof -
  let ?d = "graph_distance G s t"
  let ?A = "{u \<in> set (node_order G). reachable G s u}"
  have "{0..?d} \<subseteq> graph_distance G s ` ?A"
  proof
    fix j assume "j \<in> {0..?d}"
    then obtain u where u: "reachable G s u" "graph_distance G s u = j"
      using distance_levels[OF assms(3), of j] by auto
    then have "u \<in> set (node_order G)"
      using walk_in_nodes[OF assms(1,2)] by (auto simp: reachable_def)
    with u show "j \<in> graph_distance G s ` ?A" by auto
  qed
  then have "card {0..?d} \<le> card (graph_distance G s ` ?A)"
    by (intro card_mono) auto
  also have "\<dots> \<le> card ?A"
    by (intro card_image_le) auto
  also have "\<dots> \<le> card (set (node_order G))"
    by (intro card_mono) auto
  also have "\<dots> \<le> length (node_order G)"
    by (rule card_length)
  finally show ?thesis by simp
qed

lemma find_upt_None: "find P [0..<n] = None \<longleftrightarrow> (\<forall>k<n. \<not> P k)"
  by (auto simp: find_None_iff)

lemma find_upt_Some:
  assumes "find P [0..<n] = Some k"
  shows "P k \<and> k < n \<and> (\<forall>j<k. \<not> P j)"
  using assms by (auto simp: find_Some_iff)

text \<open>The library function computes the graph distance.\<close>

lemma shortest_path_length_distance:
  assumes "wf_graph G" "s \<in> set (node_order G)" "t \<in> set (node_order G)"
  shows "shortest_path_length G s t =
           (if reachable G s t then Inr (int (graph_distance G s t)) else Inl NetworkXNoPath)"
proof (cases "find (\<lambda>k. t \<in> set (bfs_level G s k)) [0..<length (node_order G)]")
  case None
  then have no: "\<forall>k<length (node_order G). \<not> walk G s k t"
    by (simp add: find_upt_None bfs_level_walk)
  have "\<not> reachable G s t"
  proof
    assume r: "reachable G s t"
    from graph_distance_bound[OF assms(1,2) r] reachable_graph_distance[OF r] no
    show False by blast
  qed
  with None assms show ?thesis
    by (simp add: shortest_path_length_def)
next
  case (Some k)
  from find_upt_Some[OF Some]
  have k: "walk G s k t" "\<forall>j<k. \<not> walk G s j t"
    by (simp_all add: bfs_level_walk)
  then have "graph_distance G s t = k"
    unfolding graph_distance_def by (intro Least_equality) (auto simp: not_less[symmetric])
  moreover have "reachable G s t"
    using k(1) by (auto simp: reachable_def)
  ultimately show ?thesis
    using Some assms by (simp add: shortest_path_length_def)
qed


lemma same_structure_refl [simp]: "same_structure G G"
  by (simp add: same_structure_def)

lemma bfs_level_cong:
  "succ H = succ G \<Longrightarrow> bfs_level H s k = bfs_level G s k"
  by (induction k) simp_all

lemma shortest_path_length_cong:
  assumes "same_structure G H"
  shows "shortest_path_length H s t = shortest_path_length G s t"
proof -
  have "bfs_level H s k = bfs_level G s k" for k
    using assms by (intro bfs_level_cong) (simp add: same_structure_def)
  moreover have "node_order H = node_order G"
    using assms by (simp add: same_structure_def)
  ultimately show ?thesis
    by (simp add: shortest_path_length_def)
qed

lemma edge_endpoints:
  assumes "wf_graph G" "e \<in> set (edges G)"
  shows "fst e \<in> set (node_order G)" "snd e \<in> set (node_order G)"
proof -
  from assms(2) obtain u v where uv: "e = (u, v)" "u \<in> set (node_order G)" "v \<in> set (succ G u)"
    by (auto simp: edges_def)
  moreover from assms(1) have "set (succ G u) \<subseteq> set (node_order G)"
    by (simp add: wf_graph_def)
  ultimately show "fst e \<in> set (node_order G)" "snd e \<in> set (node_order G)"
    by auto
qed

lemma foldE_classify:
  assumes "\<forall>n \<in> set ns. n \<in> set (node_order G) \<and> ntype G n \<noteq> None"
  shows "foldE (classify_node G) ns (a, b) =
           Inr (a @ filter (\<lambda>n. ntype G n = Some Source) ns,
                b @ filter (\<lambda>n. ntype G n = Some Sink) ns)"
  using assms
proof (induction ns arbitrary: a b)
  case Nil
  show ?case by simp
next
  case (Cons n ns)
  then obtain r where "ntype G n = Some r" "n \<in> set (node_order G)" by auto
  then have "classify_node G n (a, b) =
      Inr (a @ filter (\<lambda>n. ntype G n = Some Source) [n], b @ filter (\<lambda>n. ntype G n = Some Sink) [n])"
    by (simp add: classify_node_def node_ntype_def)
  then show ?case
    using Cons by simp
qed

lemma source_and_sink_nodes_filter:
  assumes "list_all (\<lambda>n. ntype G n \<noteq> None) (node_order G)"
  shows "source_and_sink_nodes G =
           Inr (filter (\<lambda>n. ntype G n = Some Source) (node_order G),
                filter (\<lambda>n. ntype G n = Some Sink) (node_order G))"
  using foldE_classify[of "node_order G" G "[]" "[]"] assms
  by (simp add: source_and_sink_nodes_def list_all_iff)

lemma foldE_try_append:
  assumes "\<forall>a \<in> set as. query a = (if ok a then Inr (d a) else Inl NetworkXNoPath)"
  shows "foldE (\<lambda>a dists. try_append (query a) dists) as acc =
           Inr (acc @ map d (filter ok as))"
  using assms by (induction as arbitrary: acc) (simp_all add: try_append_def)

lemma path_lengths_filter:
  assumes "\<forall>a \<in> set as. query a = (if ok a then Inr (d a) else Inl NetworkXNoPath)"
  shows "path_lengths query as = Inr (map d (filter ok as))"
  using foldE_try_append[OF assms, of "[]"] by (simp add: path_lengths_def)

lemma min_or_zero_set: "min_or_zero ds = (if set ds = {} then 0 else Min (set ds))"
  by (simp add: min_or_zero_def)

lemma nearest_source_distance_list:
  "nearest_source_distance G u =
     min_or_zero (map (\<lambda>s. int (graph_distance G s u))
       (filter (\<lambda>s. ntype G s = Some Source \<and> reachable G s u) (node_order G)))"
proof -
  have "set (map (\<lambda>s. int (graph_distance G s u))
       (filter (\<lambda>s. ntype G s = Some Source \<and> reachable G s u) (node_order G))) =
     {int (graph_distance G s u) | s.
                 s \<in> set (node_order G) \<and> ntype G s = Some Source \<and> reachable G s u}"
    by auto
  then show ?thesis
    by (simp only: min_or_zero_set nearest_source_distance_def Let_def)
qed

lemma nearest_sink_distance_list:
  "nearest_sink_distance G v =
     min_or_zero (map (\<lambda>t. int (graph_distance G v t))
       (filter (\<lambda>t. ntype G t = Some Sink \<and> reachable G v t) (node_order G)))"
proof -
  have "set (map (\<lambda>t. int (graph_distance G v t))
       (filter (\<lambda>t. ntype G t = Some Sink \<and> reachable G v t) (node_order G))) =
     {int (graph_distance G v t) | t.
                 t \<in> set (node_order G) \<and> ntype G t = Some Sink \<and> reachable G v t}"
    by auto
  then show ?thesis
    by (simp only: min_or_zero_set nearest_sink_distance_def Let_def)
qed

lemma assign_edge_distances_rank:
  assumes "wf_graph G" "same_structure G H" "e \<in> set (edges G)"
  shows "assign_edge_distances (filter (\<lambda>n. ntype G n = Some Source) (node_order G))
           (filter (\<lambda>n. ntype G n = Some Sink) (node_order G)) e H = Inr (rank_edge G e H)"
proof -
  obtain u v where e: "e = (u, v)" by (cases e)
  have uv: "u \<in> set (node_order G)" "v \<in> set (node_order G)"
    using edge_endpoints[OF assms(1,3)] e by simp_all
  have src: "path_lengths (\<lambda>s. shortest_path_length H s u)
               (filter (\<lambda>n. ntype G n = Some Source) (node_order G)) =
             Inr (map (\<lambda>s. int (graph_distance G s u)) (filter (\<lambda>s. reachable G s u)
               (filter (\<lambda>n. ntype G n = Some Source) (node_order G))))"
    by (rule path_lengths_filter)
       (simp add: shortest_path_length_cong[OF assms(2)]
          shortest_path_length_distance[OF assms(1)] uv)
  have snk: "path_lengths (\<lambda>t. shortest_path_length H v t)
               (filter (\<lambda>n. ntype G n = Some Sink) (node_order G)) =
             Inr (map (\<lambda>t. int (graph_distance G v t)) (filter (\<lambda>t. reachable G v t)
               (filter (\<lambda>n. ntype G n = Some Sink) (node_order G))))"
    by (rule path_lengths_filter)
       (simp add: shortest_path_length_cong[OF assms(2)]
          shortest_path_length_distance[OF assms(1)] uv)
  show ?thesis
    unfolding assign_edge_distances_def e
    by (simp add: src snk rank_edge_def Let_def
        nearest_source_distance_list nearest_sink_distance_list)
qed

lemma same_structure_rank_edge: "same_structure G H \<Longrightarrow> same_structure G (rank_edge G' e H)"
  by (simp add: same_structure_def rank_edge_def)

lemma fold_rank_edge_attrs:
  "src_dist (fold (rank_edge G) es H) e =
     (if e \<in> set es then Some (nearest_source_distance G (fst e)) else src_dist H e)"
  "sink_dist (fold (rank_edge G) es H) e =
     (if e \<in> set es then Some (nearest_sink_distance G (snd e)) else sink_dist H e)"
  "center_dist (fold (rank_edge G) es H) e =
     (if e \<in> set es
      then Some \<bar>nearest_source_distance G (fst e) - nearest_sink_distance G (snd e)\<bar>
      else center_dist H e)"
proof (induction es arbitrary: H)
  case Nil
  {
    case 1 show ?case by simp
  next
    case 2 show ?case by simp
  next
    case 3 show ?case by simp
  }
next
  case (Cons x xs)
  {
    case 1 show ?case by (simp add: Cons.IH(1)) (simp add: rank_edge_def)
  next
    case 2 show ?case by (simp add: Cons.IH(2)) (simp add: rank_edge_def)
  next
    case 3 show ?case by (simp add: Cons.IH(3)) (simp add: rank_edge_def)
  }
qed

lemma assign_distances_fold:
  assumes "wf_graph G" "list_all (\<lambda>n. ntype G n \<noteq> None) (node_order G)"
  shows "assign_distances_from_source_and_sink_nodes G = Inr (fold (rank_edge G) (edges G) G) \<and>
         same_structure G (fold (rank_edge G) (edges G) G)"
proof -
  have "foldE (assign_edge_distances (filter (\<lambda>n. ntype G n = Some Source) (node_order G))
           (filter (\<lambda>n. ntype G n = Some Sink) (node_order G))) (edges G) G =
          Inr (fold (rank_edge G) (edges G) G) \<and> same_structure G (fold (rank_edge G) (edges G) G)"
    by (rule foldE_invariant[where I = "same_structure G"])
       (simp_all add: assign_edge_distances_rank[OF assms(1)] same_structure_rank_edge)
  then show ?thesis
    by (simp add: assign_distances_from_source_and_sink_nodes_def
        source_and_sink_nodes_filter[OF assms(2)])
qed

text \<open>
  Claim C5. On a graph that satisfies the library's invariant and whose nodes all carry
  a role, \<open>assign_distances_from_source_and_sink_nodes\<close> returns, and afterwards every
  edge \<open>(u, v)\<close> carries \<^verbatim>\<open>src_dist\<close>, the least directed graph distance to \<open>u\<close> from a
  source-role node that reaches \<open>u\<close> (0 when none does), \<^verbatim>\<open>sink_dist\<close>, the least directed
  graph distance from \<open>v\<close> to a sink-role node that \<open>v\<close> reaches (0 when there is none), and
  \<^verbatim>\<open>center_dist\<close>, the absolute value of their difference, which is not negative.
\<close>

theorem assign_distances_nearest:
  assumes "wf_graph G" and "list_all (\<lambda>n. ntype G n \<noteq> None) (node_order G)"
  shows "\<exists>G'. assign_distances_from_source_and_sink_nodes G = Inr G' \<and>
           edges G' = edges G \<and>
           (\<forall>e \<in> set (edges G).
              src_dist G' e = Some (nearest_source_distance G (fst e)) \<and>
              sink_dist G' e = Some (nearest_sink_distance G (snd e)) \<and>
              center_dist G' e = Some \<bar>the (src_dist G' e) - the (sink_dist G' e)\<bar> \<and>
              0 \<le> the (center_dist G' e))"
proof -
  from assign_distances_fold[OF assms]
  have "edges (fold (rank_edge G) (edges G) G) = edges G"
    by (simp add: same_structure_def edges_def)
  with assign_distances_fold[OF assms] show ?thesis
    by (simp add: fold_rank_edge_attrs)
qed


lemma rank_example_simps:
  "node_order rank_example = [0, 1, 2, 3]"
  "succ rank_example = (\<lambda>_. [])(0 := [1], 1 := [2], 3 := [2])"
  "ntype rank_example = [0 \<mapsto> Source, 1 \<mapsto> Internal, 2 \<mapsto> Sink, 3 \<mapsto> Source]"
  "src_dist rank_example = Map.empty" "sink_dist rank_example = Map.empty"
  "center_dist rank_example = Map.empty"
  by (simp_all add: rank_example_def empty_graph_def)

lemma edges_rank_example: "edges rank_example = [(0, 1), (1, 2), (3, 2)]"
  by (simp add: edges_def rank_example_simps)

lemma wf_rank_example: "wf_graph rank_example"
  by (auto simp: wf_graph_def rank_example_simps)

lemma upt_4: "[0..<4] = [0, 1, 2, 3]"
  by (simp add: upt_rec)

text \<open>
  On the example, source 3 reaches neither node 0 nor node 1, so only source 0 counts
  for the edges \<open>(0, 1)\<close> and \<open>(1, 2)\<close>; the sink 2 is one step from node 1.
\<close>

theorem assign_distances_nearest_witness:
  "wf_graph rank_example \<and>
   assign_distances_from_source_and_sink_nodes rank_example =
     Inr (fold (rank_edge rank_example) (edges rank_example) rank_example) \<and>
   nearest_source_distance rank_example 0 = 0 \<and> nearest_sink_distance rank_example 1 = 1 \<and>
   nearest_source_distance rank_example 1 = 1 \<and> nearest_sink_distance rank_example 2 = 0 \<and>
   nearest_source_distance rank_example 3 = 0"
proof -
  have types: "list_all (\<lambda>n. ntype rank_example n \<noteq> None) (node_order rank_example)"
    by (simp add: rank_example_simps)
  obtain G' where G': "assign_distances_from_source_and_sink_nodes rank_example = Inr G'"
    and attrs: "\<forall>e \<in> set (edges rank_example).
              src_dist G' e = Some (nearest_source_distance rank_example (fst e)) \<and>
              sink_dist G' e = Some (nearest_sink_distance rank_example (snd e)) \<and>
              center_dist G' e = Some \<bar>the (src_dist G' e) - the (sink_dist G' e)\<bar> \<and>
              0 \<le> the (center_dist G' e)"
    using assign_distances_nearest [OF wf_rank_example types] by blast
  have nodes: "source_and_sink_nodes rank_example = Inr ([0, 3], [2])"
    by (simp add: source_and_sink_nodes_def classify_node_def node_ntype_def rank_example_simps)
  have run: "assign_distances_from_source_and_sink_nodes rank_example =
      Inr (rank_example\<lparr>
        src_dist := [(0, 1) \<mapsto> 0, (1, 2) \<mapsto> 1, (3, 2) \<mapsto> 0],
        sink_dist := [(0, 1) \<mapsto> 1, (1, 2) \<mapsto> 0, (3, 2) \<mapsto> 0],
        center_dist := [(0, 1) \<mapsto> 1, (1, 2) \<mapsto> 1, (3, 2) \<mapsto> 0] \<rparr>)"
    by (simp add: assign_distances_from_source_and_sink_nodes_def nodes edges_rank_example
        assign_edge_distances_def path_lengths_def try_append_def min_or_zero_def
        shortest_path_length_def upt_4 eval_nat_numeral rank_example_simps)
  from attrs G' run have
    "nearest_source_distance rank_example 0 = 0" "nearest_sink_distance rank_example 1 = 1"
    "nearest_source_distance rank_example 1 = 1" "nearest_sink_distance rank_example 2 = 0"
    "nearest_source_distance rank_example 3 = 0"
    by (auto simp: edges_rank_example)
  moreover have "assign_distances_from_source_and_sink_nodes rank_example =
     Inr (fold (rank_edge rank_example) (edges rank_example) rank_example)"
    using calculation run by (simp add: edges_rank_example rank_edge_def rank_example_simps)
  ultimately show ?thesis
    using wf_rank_example by simp
qed

section \<open>The repair passes as sweeps\<close>

lemma edges_cong: "node_order H = node_order G \<Longrightarrow> succ H = succ G \<Longrightarrow> edges H = edges G"
  by (simp add: edges_def)

lemma swap_radii_frame [simp]:
  "edges (swap_radii e1 e2 G) = edges G"
  "center_dist (swap_radii e1 e2 G) = center_dist G"
  by (simp_all add: swap_radii_def)

lemma repair_swap_frame [simp]:
  "edges (repair_swap e1 e2 G) = edges G"
  "center_dist (repair_swap e1 e2 G) = center_dist G"
  by (simp_all add: repair_swap_def)

lemma repair_ready_swap:
  assumes "repair_ready G" "e1 \<in> set (edges G)" "e2 \<in> set (edges G)"
  shows "repair_ready (repair_swap e1 e2 G)"
  using assms by (auto simp: repair_ready_def repair_swap_def swap_radii_def list_all_iff)

lemma repair_pair_swap:
  assumes "repair_ready G" "e1 \<in> set (edges G)" "e2 \<in> set (edges G)"
  shows "repair_pair e1 e2 G = Inr (repair_swap e1 e2 G)"
proof -
  from assms obtain c1 c2 r1 r2 where
    "center_dist G e1 = Some c1" "center_dist G e2 = Some c2"
    "radius G e1 = Some r1" "radius G e2 = Some r2"
    unfolding repair_ready_def list_all_iff by fastforce
  then show ?thesis
    by (simp add: repair_pair_def repair_swap_def swap_radii_def)
qed

lemma repair_edge_fold:
  assumes "repair_ready G" "e1 \<in> set (edges G)"
  shows "repair_edge e1 G = Inr (fold (\<lambda>e2. repair_swap e1 e2) (edges G) G) \<and>
         (repair_ready (fold (\<lambda>e2. repair_swap e1 e2) (edges G) G) \<and>
          edges (fold (\<lambda>e2. repair_swap e1 e2) (edges G) G) = edges G)"
  unfolding repair_edge_def
  by (rule foldE_invariant[where I = "\<lambda>H. repair_ready H \<and> edges H = edges G"])
     (use assms in \<open>auto simp: repair_pair_swap repair_ready_swap\<close>)

lemma repair_pass_sweep:
  assumes "repair_ready G"
  shows "repair_pass G = Inr (repair_sweep G) \<and>
         (repair_ready (repair_sweep G) \<and> edges (repair_sweep G) = edges G)"
  unfolding repair_pass_def repair_sweep_def
proof (rule foldE_invariant[where I = "\<lambda>H. repair_ready H \<and> edges H = edges G"])
  show "repair_ready G \<and> edges G = edges G"
    using assms by simp
next
  fix e1 H
  assume "e1 \<in> set (edges G)" and "repair_ready H \<and> edges H = edges G"
  then show "repair_edge e1 H = Inr (fold (\<lambda>e2. repair_swap e1 e2) (edges G) H) \<and>
         (repair_ready (fold (\<lambda>e2. repair_swap e1 e2) (edges G) H) \<and>
          edges (fold (\<lambda>e2. repair_swap e1 e2) (edges G) H) = edges G)"
    using repair_edge_fold[of H e1] by simp
qed

lemma fold_const_funpow: "fold (\<lambda>_. g) xs s = (g ^^ length xs) s"
  by (induction xs arbitrary: s) (simp_all add: funpow_swap1)

lemma repair_passes_sweeps:
  assumes "repair_ready G"
  shows "repair_passes k G = Inr ((repair_sweep ^^ nat k) G)"
proof -
  have "foldE (\<lambda>_. repair_pass) (py_range k) G = Inr (fold (\<lambda>_. repair_sweep) (py_range k) G) \<and>
        repair_ready (fold (\<lambda>_. repair_sweep) (py_range k) G)"
    by (rule foldE_invariant[where I = repair_ready])
       (use assms in \<open>auto simp: repair_pass_sweep\<close>)
  then show ?thesis
    by (simp add: repair_passes_def fold_const_funpow py_range_def)
qed

section \<open>The loop order of the lattice\<close>

lemma set_py_range [simp]: "set (py_range N) = {0..<N}"
proof (rule set_eqI)
  fix x
  show "x \<in> set (py_range N) \<longleftrightarrow> x \<in> {0..<N}"
  proof
    assume "x \<in> set (py_range N)"
    then show "x \<in> {0..<N}" by (auto simp: py_range_def)
  next
    assume "x \<in> {0..<N}"
    then have "nat x < nat N" "x = int (nat x)" by auto
    then show "x \<in> set (py_range N)"
      unfolding py_range_def by (metis atLeast0LessThan image_eqI lessThan_iff set_map set_upt)
  qed
qed

lemma distinct_py_range [simp]: "distinct (py_range N)"
  by (simp add: py_range_def distinct_map inj_on_def)

lemma length_py_range [simp]: "length (py_range N) = nat N"
  by (simp add: py_range_def)

lemma py_range_nth [simp]: "i < nat N \<Longrightarrow> py_range N ! i = int i"
  by (simp add: py_range_def)

lemma grid_product:
  "grid N = List.product (py_range N) (List.product (py_range N) (py_range N))"
  by (simp add: grid_def product_concat_map map_concat comp_def)

lemma columns_product: "columns N = List.product (py_range N) (py_range N)"
  by (simp add: columns_def product_concat_map)

lemma set_grid:
  "set (grid N) = {(x, y, z). 0 \<le> x \<and> x < N \<and> 0 \<le> y \<and> y < N \<and> 0 \<le> z \<and> z < N}"
  by (auto simp: grid_product)

lemma in_grid [simp]:
  "(x, y, z) \<in> set (grid N) \<longleftrightarrow> 0 \<le> x \<and> x < N \<and> 0 \<le> y \<and> y < N \<and> 0 \<le> z \<and> z < N"
  by (simp add: set_grid)

lemma distinct_grid [simp]: "distinct (grid N)"
  by (simp add: grid_product distinct_product)

lemma length_grid: "length (grid N) = nat N ^ 3"
  by (simp add: grid_product power3_eq_cube)

lemma in_columns [simp]:
  "(x, y) \<in> set (columns N) \<longleftrightarrow> 0 \<le> x \<and> x < N \<and> 0 \<le> y \<and> y < N"
  by (auto simp: columns_product)

lemma distinct_columns [simp]: "distinct (columns N)"
  by (simp add: columns_product distinct_product)

text \<open>The triple at position \<open>i\<close> of the loop order has the identifier \<open>i\<close>.\<close>

lemma node_id_grid_nth:
  assumes "i < length (grid N)"
  shows "node_id N (grid N ! i) = int i"
proof -
  define n where "n = nat N"
  from assms have i: "i < n * (n * n)"
    by (simp add: power3_eq_cube n_def length_grid)
  then have n: "0 < n" by (cases n) auto
  then have N: "N = int n" by (simp add: n_def)
  have a: "i div (n * n) < n"
    using i by (simp add: less_mult_imp_div_less mult.commute)
  have b: "i mod (n * n) < n * n"
    using n by simp
  have c: "i mod (n * n) div n < n"
    using b by (simp add: less_mult_imp_div_less)
  have d: "i mod (n * n) mod n < n"
    using n by simp
  have nth: "grid N ! i = (int (i div (n * n)), int (i mod (n * n) div n),
          int (i mod (n * n) mod n))"
    using i a b c d by (simp add: grid_product product_nth n_def[symmetric])
  have "(i div (n * n) * n + i mod (n * n) div n) * n + i mod (n * n) mod n =
          i div (n * n) * (n * n) + (i mod (n * n) div n * n + i mod (n * n) mod n)"
    by (simp add: algebra_simps)
  also have "\<dots> = i div (n * n) * (n * n) + i mod (n * n)"
    by (simp only: div_mult_mod_eq)
  also have "\<dots> = i"
    by (rule div_mult_mod_eq)
  finally have "int ((i div (n * n) * n + i mod (n * n) div n) * n + i mod (n * n) mod n) = int i"
    by simp
  then have "(int (i div (n * n)) * N + int (i mod (n * n) div n)) * N +
     int (i mod (n * n) mod n) = int i"
    by (simp add: N)
  then show ?thesis
    by (simp add: node_id_def nth)
qed

section \<open>The node loop\<close>

lemma inj_on_node_id: "inj_on (node_id N) (set (grid N))"
proof (rule inj_onI)
  fix p q
  assume "p \<in> set (grid N)" "q \<in> set (grid N)" and eq: "node_id N p = node_id N q"
  then obtain i j where ij: "i < length (grid N)" "grid N ! i = p"
    "j < length (grid N)" "grid N ! j = q"
    by (auto simp: in_set_conv_nth)
  with eq node_id_grid_nth[of i N] node_id_grid_nth[of j N] have "i = j" by simp
  with ij show "p = q" by simp
qed

lemma map_node_id_grid: "map (node_id N) (grid N) = map int [0..<length (grid N)]"
  by (rule nth_equalityI) (simp_all add: node_id_grid_nth)

lemma node_id_range:
  assumes "p \<in> set (grid N)"
  shows "0 \<le> node_id N p \<and> node_id N p < int (length (grid N))"
proof -
  from assms obtain i where "i < length (grid N)" "grid N ! i = p"
    by (auto simp: in_set_conv_nth)
  with node_id_grid_nth[of i N] show ?thesis by auto
qed

text \<open>The node loop, from any state.\<close>

lemma fold_add_lattice_node:
  assumes "distinct ps" and "\<forall>i<length ps. c + int i \<notin> set (node_order G)"
  shows "\<exists>vd' G'. fold (add_lattice_node delta) ps (vd, G, c) = (vd', G', c + int (length ps)) \<and>
           (\<forall>i<length ps. vd' (ps ! i) = Some (c + int i)) \<and>
           (\<forall>q. q \<notin> set ps \<longrightarrow> vd' q = vd q) \<and>
           node_order G' = node_order G @ map (\<lambda>i. c + int i) [0..<length ps] \<and>
           (\<forall>i<length ps. ntype G' (c + int i) = Some Internal \<and>
                           pos G' (c + int i) = Some (position delta (ps ! i))) \<and>
           (\<forall>k. k \<notin> (\<lambda>i. c + int i) ` {0..<length ps} \<longrightarrow>
                  ntype G' k = ntype G k \<and> pos G' k = pos G k) \<and>
           G' = G\<lparr> node_order := node_order G', ntype := ntype G', pos := pos G' \<rparr>"
  using assms
proof (induction ps arbitrary: vd G c)
  case Nil
  show ?case by simp
next
  case (Cons p ps)
  obtain x y z where p: "p = (x, y, z)" by (cases p)
  let ?G1 = "add_node c (position delta p) Internal G"
  have step: "add_lattice_node delta p (vd, G, c) = (vd(p \<mapsto> c), ?G1, c + 1)"
    by (simp add: add_lattice_node_def position_def p)
  have c_new: "c \<notin> set (node_order G)"
    using Cons.prems(2) by auto
  then have nodes1: "node_order ?G1 = node_order G @ [c]"
    by (simp add: add_node_def insert_node_def)
  have pre: "\<forall>i<length ps. c + 1 + int i \<notin> set (node_order ?G1)"
  proof (intro allI impI)
    fix i assume "i < length ps"
    then have "c + int (Suc i) \<notin> set (node_order G)"
      using Cons.prems(2) by (metis Suc_less_eq length_Cons)
    then show "c + 1 + int i \<notin> set (node_order ?G1)"
      by (simp add: nodes1 add.assoc)
  qed
  from Cons.prems(1) have dist: "distinct ps" "p \<notin> set ps" by simp_all
  from Cons.IH[OF dist(1) pre, of "vd(p \<mapsto> c)"]
  obtain vd' G' where
    run: "fold (add_lattice_node delta) ps (vd(p \<mapsto> c), ?G1, c + 1) =
            (vd', G', c + 1 + int (length ps))"
    and vd_in: "\<forall>i<length ps. vd' (ps ! i) = Some (c + 1 + int i)"
    and vd_out: "\<forall>q. q \<notin> set ps \<longrightarrow> vd' q = (vd(p \<mapsto> c)) q"
    and nodes: "node_order G' = node_order ?G1 @ map (\<lambda>i. c + 1 + int i) [0..<length ps]"
    and attrs_in: "\<forall>i<length ps. ntype G' (c + 1 + int i) = Some Internal \<and>
                           pos G' (c + 1 + int i) = Some (position delta (ps ! i))"
    and attrs_out: "\<forall>k. k \<notin> (\<lambda>i. c + 1 + int i) ` {0..<length ps} \<longrightarrow>
                  ntype G' k = ntype ?G1 k \<and> pos G' k = pos ?G1 k"
    and frame: "G' = ?G1\<lparr> node_order := node_order G', ntype := ntype G', pos := pos G' \<rparr>"
    by blast
  have shift: "map (\<lambda>i. c + int i) [0..<length (p # ps)] =
                 c # map (\<lambda>i. c + 1 + int i) [0..<length ps]"
    by (simp add: upt_conv_Cons map_Suc_upt[symmetric] add.assoc del: upt_Suc)
  have c_out: "c \<notin> (\<lambda>i. c + 1 + int i) ` {0..<length ps}"
    by auto
  have "fold (add_lattice_node delta) (p # ps) (vd, G, c) =
          (vd', G', c + int (length (p # ps)))"
    using run by (simp add: step add.assoc)
  moreover have "\<forall>i<length (p # ps). vd' ((p # ps) ! i) = Some (c + int i)"
  proof (intro allI impI)
    fix i assume i: "i < length (p # ps)"
    show "vd' ((p # ps) ! i) = Some (c + int i)"
    proof (cases i)
      case 0
      then show ?thesis using vd_out[rule_format, OF dist(2)] by simp
    next
      case (Suc j)
      then show ?thesis using vd_in i by (simp add: add.assoc)
    qed
  qed
  moreover have "\<forall>q. q \<notin> set (p # ps) \<longrightarrow> vd' q = vd q"
    using vd_out by simp
  moreover have "node_order G' = node_order G @ map (\<lambda>i. c + int i) [0..<length (p # ps)]"
    unfolding shift using nodes nodes1 by simp
  moreover have "\<forall>i<length (p # ps). ntype G' (c + int i) = Some Internal \<and>
                           pos G' (c + int i) = Some (position delta ((p # ps) ! i))"
  proof (intro allI impI)
    fix i assume i: "i < length (p # ps)"
    show "ntype G' (c + int i) = Some Internal \<and>
          pos G' (c + int i) = Some (position delta ((p # ps) ! i))"
    proof (cases i)
      case 0
      then show ?thesis using attrs_out c_out by (simp add: add_node_def)
    next
      case (Suc j)
      then show ?thesis using attrs_in i by (simp add: add.assoc)
    qed
  qed
  moreover have "\<forall>k. k \<notin> (\<lambda>i. c + int i) ` {0..<length (p # ps)} \<longrightarrow>
                  ntype G' k = ntype G k \<and> pos G' k = pos G k"
  proof (intro allI impI)
    fix k assume k: "k \<notin> (\<lambda>i. c + int i) ` {0..<length (p # ps)}"
    have "k \<noteq> c" using k by force
    moreover have "k \<notin> (\<lambda>i. c + 1 + int i) ` {0..<length ps}"
    proof
      assume "k \<in> (\<lambda>i. c + 1 + int i) ` {0..<length ps}"
      then obtain i where "i < length ps" "k = c + int (Suc i)" by auto
      then have "k \<in> (\<lambda>i. c + int i) ` {0..<length (p # ps)}"
        by (intro image_eqI[of _ _ "Suc i"]) simp_all
      with k show False by simp
    qed
    ultimately show "ntype G' k = ntype G k \<and> pos G' k = pos G k"
      using attrs_out by (simp add: add_node_def)
  qed
  moreover have "G' = G\<lparr> node_order := node_order G', ntype := ntype G', pos := pos G' \<rparr>"
    by (subst frame) (simp add: add_node_def)
  ultimately show ?case by blast
qed

section \<open>The lattice loops\<close>

lemma add_lattice_nodes_spec:
  assumes "node_order G = []"
  shows "\<exists>vd G0. add_lattice_nodes N delta G = (vd, G0, int (length (grid N))) \<and>
           (\<forall>p \<in> set (grid N). vd p = Some (node_id N p)) \<and>
           node_order G0 = map (node_id N) (grid N) \<and>
           (\<forall>p \<in> set (grid N). ntype G0 (node_id N p) = Some Internal \<and>
                                  pos G0 (node_id N p) = Some (position delta p)) \<and>
           G0 = G\<lparr> node_order := node_order G0, ntype := ntype G0, pos := pos G0 \<rparr>"
proof -
  from fold_add_lattice_node[of "grid N" 0 G delta Map.empty] assms
  obtain vd G0 where
    run: "fold (add_lattice_node delta) (grid N) (Map.empty, G, 0) =
            (vd, G0, int (length (grid N)))"
    and vd: "\<forall>i<length (grid N). vd (grid N ! i) = Some (int i)"
    and nodes: "node_order G0 = map int [0..<length (grid N)]"
    and attrs: "\<forall>i<length (grid N). ntype G0 (int i) = Some Internal \<and>
                           pos G0 (int i) = Some (position delta (grid N ! i))"
    and frame: "G0 = G\<lparr> node_order := node_order G0, ntype := ntype G0, pos := pos G0 \<rparr>"
    by auto
  have "\<forall>p \<in> set (grid N). vd p = Some (node_id N p)"
  proof
    fix p assume "p \<in> set (grid N)"
    then obtain i where i: "i < length (grid N)" "grid N ! i = p"
      by (auto simp: in_set_conv_nth)
    with vd node_id_grid_nth[of i N] show "vd p = Some (node_id N p)" by auto
  qed
  moreover have "\<forall>p \<in> set (grid N). ntype G0 (node_id N p) = Some Internal \<and>
                                  pos G0 (node_id N p) = Some (position delta p)"
  proof
    fix p assume "p \<in> set (grid N)"
    then obtain i where i: "i < length (grid N)" "grid N ! i = p"
      by (auto simp: in_set_conv_nth)
    with attrs node_id_grid_nth[of i N]
    show "ntype G0 (node_id N p) = Some Internal \<and>
          pos G0 (node_id N p) = Some (position delta p)" by auto
  qed
  ultimately show ?thesis
    using run nodes frame by (auto simp: add_lattice_nodes_def map_node_id_grid)
qed

subsection \<open>The edge loop\<close>

lemma forward_neighbours_grid:
  assumes "p \<in> set (grid N)"
  shows "set (forward_neighbours N p) \<subseteq> set (grid N)" "distinct (forward_neighbours N p)"
    "p \<notin> set (forward_neighbours N p)"
proof -
  obtain x y z where p: "p = (x, y, z)" by (cases p)
  show "set (forward_neighbours N p) \<subseteq> set (grid N)"
    using assms unfolding p forward_neighbours_def by auto
  show "distinct (forward_neighbours N p)"
    unfolding p forward_neighbours_def by auto
  show "p \<notin> set (forward_neighbours N p)"
    unfolding p forward_neighbours_def by auto
qed

lemma forward_edges_spec:
  assumes "\<forall>p \<in> set (grid N). vd p = Some (node_id N p)" "p \<in> set (grid N)"
  shows "forward_edges N vd p =
           Inr (map (\<lambda>q. (node_id N p, node_id N q)) (forward_neighbours N p))"
proof -
  obtain x y z where p: "p = (x, y, z)" by (cases p)
  have vdp: "vd (x, y, z) = Some (node_id N (x, y, z))"
    using assms p by blast
  have nb: "x < N - 1 \<Longrightarrow> vd (x + 1, y, z) = Some (node_id N (x + 1, y, z))"
    "y < N - 1 \<Longrightarrow> vd (x, y + 1, z) = Some (node_id N (x, y + 1, z))"
    "z < N - 1 \<Longrightarrow> vd (x, y, z + 1) = Some (node_id N (x, y, z + 1))"
    using assms p by auto
  show ?thesis
    unfolding p forward_edges_def forward_neighbours_def lattice_edge_def
    by (simp add: vdp nb)
qed

lemma add_edges_from_fresh:
  assumes "u \<in> set (node_order G)" "set vs \<subseteq> set (node_order G)" "distinct vs"
    "set (succ G u) \<inter> set vs = {}"
  shows "add_edges_from (map (Pair u) vs) G = G\<lparr> succ := (succ G)(u := succ G u @ vs) \<rparr>"
  using assms
proof (induction vs arbitrary: G)
  case Nil
  show ?case by (simp add: add_edges_from_def)
next
  case (Cons v vs)
  let ?G1 = "G\<lparr> succ := (succ G)(u := succ G u @ [v]) \<rparr>"
  have step: "add_edge u v G = ?G1"
    using Cons.prems by (simp add: add_edge_def insert_node_def)
  have eq: "(succ ?G1)(u := succ ?G1 u @ vs) = (succ G)(u := succ G u @ v # vs)"
    by (rule ext) simp
  have "add_edges_from (map (Pair u) (v # vs)) G = add_edges_from (map (Pair u) vs) ?G1"
    by (simp add: add_edges_from_def step)
  also have "\<dots> = ?G1\<lparr> succ := (succ ?G1)(u := succ ?G1 u @ vs) \<rparr>"
    using Cons.prems by (intro Cons.IH) auto
  also have "\<dots> = G\<lparr> succ := (succ G)(u := succ G u @ v # vs) \<rparr>"
    unfolding eq by simp
  finally show ?case .
qed

lemma foldE_add_forward_edges:
  assumes vd: "\<forall>p \<in> set (grid N). vd p = Some (node_id N p)"
    and "set ps \<subseteq> set (grid N)" "distinct ps"
    and "node_order H = map (node_id N) (grid N)"
    and "\<forall>p \<in> set ps. succ H (node_id N p) = []"
  shows "\<exists>H'. foldE (add_forward_edges N vd) ps H = Inr H' \<and>
           H' = H\<lparr> succ := succ H' \<rparr> \<and>
           (\<forall>p \<in> set ps. succ H' (node_id N p) = map (node_id N) (forward_neighbours N p)) \<and>
           (\<forall>k. k \<notin> node_id N ` set ps \<longrightarrow> succ H' k = succ H k)"
  using assms(2-)
proof (induction ps arbitrary: H)
  case Nil
  show ?case by simp
next
  case (Cons p ps)
  from Cons.prems have p: "p \<in> set (grid N)" and ps: "set ps \<subseteq> set (grid N)"
    and dist: "distinct ps" "p \<notin> set ps" by auto
  let ?ts = "map (node_id N) (forward_neighbours N p)"
  let ?H1 = "H\<lparr> succ := (succ H)(node_id N p := ?ts) \<rparr>"
  have el: "forward_edges N vd p = Inr (map (Pair (node_id N p)) ?ts)"
    by (simp add: forward_edges_spec[OF vd p] comp_def)
  have "distinct ?ts"
    using forward_neighbours_grid[OF p] inj_on_node_id[of N]
    by (simp add: distinct_map inj_on_subset)
  moreover have "set ?ts \<subseteq> set (node_order H)"
    using forward_neighbours_grid(1)[OF p] Cons.prems(3) by auto
  moreover have "node_id N p \<in> set (node_order H)"
    using p Cons.prems(3) by simp
  moreover have "succ H (node_id N p) = []"
    using Cons.prems(4) by simp
  ultimately have step: "add_forward_edges N vd p H = Inr ?H1"
    using add_edges_from_fresh[of "node_id N p" H ?ts]
    by (simp add: add_forward_edges_def el)
  have fresh: "\<forall>q \<in> set ps. succ ?H1 (node_id N q) = []"
  proof
    fix q assume q: "q \<in> set ps"
    then have "node_id N q \<noteq> node_id N p"
      using inj_on_node_id[of N] p ps dist(2) by (auto simp: inj_on_def)
    then show "succ ?H1 (node_id N q) = []"
      using Cons.prems(4) q by simp
  qed
  from Cons.IH[OF ps dist(1) _ fresh] Cons.prems(3)
  obtain H' where H': "foldE (add_forward_edges N vd) ps ?H1 = Inr H'"
    "H' = ?H1\<lparr> succ := succ H' \<rparr>"
    "\<forall>q \<in> set ps. succ H' (node_id N q) = map (node_id N) (forward_neighbours N q)"
    "\<forall>k. k \<notin> node_id N ` set ps \<longrightarrow> succ H' k = succ ?H1 k"
    by auto
  have notin: "node_id N p \<notin> node_id N ` set ps"
    using inj_on_node_id[of N] p ps dist(2) by (auto simp: inj_on_def)
  have "foldE (add_forward_edges N vd) (p # ps) H = Inr H'"
    by (simp add: step H'(1))
  moreover have "H' = H\<lparr> succ := succ H' \<rparr>"
    by (subst H'(2)) simp
  moreover have "\<forall>q \<in> set (p # ps). succ H' (node_id N q) =
                   map (node_id N) (forward_neighbours N q)"
    using H'(3) H'(4)[rule_format, OF notin] by simp
  moreover have "\<forall>k. k \<notin> node_id N ` set (p # ps) \<longrightarrow> succ H' k = succ H k"
    using H'(4) by simp
  ultimately show ?case by blast
qed

subsection \<open>Sources and sinks\<close>

lemma mark_column_spec:
  assumes vd: "\<forall>p \<in> set (grid N). vd p = Some (node_id N p)"
    and c: "(x, y) \<in> set (columns N)"
    and nodes: "node_order H = map (node_id N) (grid N)"
  shows "mark_column N vd (x, y) H =
           Inr (if y mod 2 \<noteq> x mod 2 then H
                else H\<lparr> ntype := (ntype H)(node_id N (x, y, 0) \<mapsto> Source,
                                              node_id N (x, y, N - 1) \<mapsto> Sink) \<rparr>)"
proof -
  from c have in_grid: "(x, y, 0) \<in> set (grid N)" "(x, y, N - 1) \<in> set (grid N)"
    by auto
  then have look: "vd (x, y, 0) = Some (node_id N (x, y, 0))"
    "vd (x, y, N - 1) = Some (node_id N (x, y, N - 1))"
    using vd by blast+
  have mem: "node_id N (x, y, 0) \<in> set (node_order H)"
    "node_id N (x, y, N - 1) \<in> set (node_order H)"
    using in_grid nodes by (simp_all del: in_grid)
  show ?thesis
    by (simp add: mark_column_def look set_ntype_def mem)
qed

lemma foldE_mark_column:
  assumes vd: "\<forall>p \<in> set (grid N). vd p = Some (node_id N p)"
    and "set cs \<subseteq> set (columns N)" "distinct cs"
    and "node_order H = map (node_id N) (grid N)"
    and "\<forall>x y z. (x, y, z) \<in> set (grid N) \<and> (x, y) \<in> set cs \<longrightarrow>
           ntype H (node_id N (x, y, z)) = Some Internal"
  shows "\<exists>H'. foldE (mark_column N vd) cs H = Inr H' \<and>
           H' = H\<lparr> ntype := ntype H' \<rparr> \<and>
           (\<forall>x y z. (x, y, z) \<in> set (grid N) \<longrightarrow>
              ntype H' (node_id N (x, y, z)) =
                (if (x, y) \<in> set cs then Some (lattice_role N (x, y, z))
                 else ntype H (node_id N (x, y, z))))"
  using assms(2-)
proof (induction cs arbitrary: H)
  case Nil
  show ?case by simp
next
  case (Cons c cs)
  obtain a b where c: "c = (a, b)" by (cases c)
  from Cons.prems c have ab: "(a, b) \<in> set (columns N)" and cs: "set cs \<subseteq> set (columns N)"
    and dist: "distinct cs" "(a, b) \<notin> set cs" by auto
  define H1 where "H1 = (if b mod 2 \<noteq> a mod 2 then H
                else H\<lparr> ntype := (ntype H)(node_id N (a, b, 0) \<mapsto> Source,
                                              node_id N (a, b, N - 1) \<mapsto> Sink) \<rparr>)"
  have step: "mark_column N vd c H = Inr H1"
    unfolding c H1_def by (rule mark_column_spec[OF vd ab Cons.prems(3)])
  have nodes1: "node_order H1 = map (node_id N) (grid N)"
    using Cons.prems(3) by (simp add: H1_def)
  have frame1: "H1 = H\<lparr> ntype := ntype H1 \<rparr>"
    by (simp add: H1_def)
  have faces: "(a, b, 0) \<in> set (grid N)" "(a, b, N - 1) \<in> set (grid N)"
    using ab by auto
  have id_eq: "node_id N p = node_id N q \<longleftrightarrow> p = q"
    if "p \<in> set (grid N)" "q \<in> set (grid N)" for p q
    using inj_on_node_id[of N] that by (auto simp: inj_on_def)
  have ntype1: "ntype H1 (node_id N (x, y, z)) =
      (if (x, y) = (a, b) \<and> b mod 2 = a mod 2 \<and> z = N - 1 then Some Sink
       else if (x, y) = (a, b) \<and> b mod 2 = a mod 2 \<and> z = 0 then Some Source
       else ntype H (node_id N (x, y, z)))"
    if "(x, y, z) \<in> set (grid N)" for x y z
    using id_eq[OF that faces(1)] id_eq[OF that faces(2)]
    by (auto simp: H1_def)
  have internal1: "\<forall>x y z. (x, y, z) \<in> set (grid N) \<and> (x, y) \<in> set cs \<longrightarrow>
           ntype H1 (node_id N (x, y, z)) = Some Internal"
  proof (intro allI impI)
    fix x y z assume h: "(x, y, z) \<in> set (grid N) \<and> (x, y) \<in> set cs"
    then have ne: "(x, y) \<noteq> (a, b)" and g: "(x, y, z) \<in> set (grid N)"
      using dist(2) by auto
    have "ntype H (node_id N (x, y, z)) = Some Internal"
      using Cons.prems(4) h by simp
    then show "ntype H1 (node_id N (x, y, z)) = Some Internal"
      using ntype1[OF g] ne by auto
  qed
  from Cons.IH[OF cs dist(1) nodes1 internal1]
  obtain H' where H': "foldE (mark_column N vd) cs H1 = Inr H'"
    "H' = H1\<lparr> ntype := ntype H' \<rparr>"
    "\<forall>x y z. (x, y, z) \<in> set (grid N) \<longrightarrow>
              ntype H' (node_id N (x, y, z)) =
                (if (x, y) \<in> set cs then Some (lattice_role N (x, y, z))
                 else ntype H1 (node_id N (x, y, z)))"
    by blast
  have "foldE (mark_column N vd) (c # cs) H = Inr H'"
    by (simp add: step H'(1))
  moreover have "H' = H\<lparr> ntype := ntype H' \<rparr>"
    by (subst H'(2), subst frame1) simp
  moreover have "\<forall>x y z. (x, y, z) \<in> set (grid N) \<longrightarrow>
              ntype H' (node_id N (x, y, z)) =
                (if (x, y) \<in> set (c # cs) then Some (lattice_role N (x, y, z))
                 else ntype H (node_id N (x, y, z)))"
  proof (intro allI impI)
    fix x y z assume g: "(x, y, z) \<in> set (grid N)"
    show "ntype H' (node_id N (x, y, z)) =
                (if (x, y) \<in> set (c # cs) then Some (lattice_role N (x, y, z))
                 else ntype H (node_id N (x, y, z)))"
    proof (cases "(x, y) \<in> set cs")
      case True
      then show ?thesis using H'(3) g by simp
    next
      case False
      have init: "ntype H (node_id N (x, y, z)) = Some Internal" if "(x, y) = (a, b)"
        using Cons.prems(4) g that c by simp
      show ?thesis
        using False H'(3)[rule_format, OF g] ntype1[OF g] init
        by (auto simp: c lattice_role_def)
    qed
  qed
  ultimately show ?case by blast
qed

subsection \<open>Edges of a well-formed graph\<close>

lemma set_edges: "set (edges G) = {(u, v). u \<in> set (node_order G) \<and> v \<in> set (succ G u)}"
  by (auto simp: edges_def)

lemma distinct_edges_aux:
  assumes "distinct ns" "\<And>u. distinct (f u)"
  shows "distinct (concat (map (\<lambda>u. map (Pair u) (f u)) ns))"
  using assms(1)
proof (induction ns)
  case Nil
  show ?case by simp
next
  case (Cons n ns)
  then show ?case
    using assms(2) by (auto simp: distinct_map inj_on_def)
qed

lemma distinct_edges: "wf_graph G \<Longrightarrow> distinct (edges G)"
  unfolding edges_def by (rule distinct_edges_aux) (simp_all add: wf_graph_def)

lemma wf_graph_edge:
  assumes "wf_graph G" "(u, v) \<in> set (edges G)"
  shows "u \<in> set (node_order G)" "v \<in> set (node_order G)" "v \<in> set (succ G u)"
  using assms by (auto simp: set_edges wf_graph_def)

subsection \<open>The re-orientation loop\<close>

lemma reverse_edge_spec:
  assumes wf: "wf_graph H" and e: "(u, v) \<in> set (edges H)" and rev: "(v, u) \<notin> set (edges H)"
  shows "\<exists>H'. reverse_edge u v H = Inr H' \<and> node_order H' = node_order H \<and>
           ntype H' = ntype H \<and> pos H' = pos H \<and> wf_graph H' \<and>
           set (edges H') = insert (v, u) (set (edges H) - {(u, v)})"
proof -
  have uv: "u \<in> set (node_order H)" "v \<in> set (node_order H)" "v \<in> set (succ H u)"
    using wf_graph_edge[OF wf e] by simp_all
  have ne: "u \<noteq> v" using e rev by auto
  have nu: "u \<notin> set (succ H v)"
    using rev uv by (simp add: set_edges)
  define s' where "s' = (succ H)(u := removeAll v (succ H u), v := succ H v @ [u])"
  define H' where "H' = add_edge v u (projr (remove_edge u v H))"
  have run: "reverse_edge u v H = Inr H'"
    using uv by (simp add: reverse_edge_def remove_edge_def H'_def)
  have fields: "node_order H' = node_order H" "ntype H' = ntype H" "pos H' = pos H"
    "succ H' = s'"
    using uv ne nu
    by (auto simp: H'_def remove_edge_def add_edge_def insert_node_def s'_def fun_eq_iff)
  have dist: "\<And>n. distinct (succ H n)" and sub: "\<And>n. set (succ H n) \<subseteq> set (node_order H)"
    and out: "\<And>n. n \<notin> set (node_order H) \<Longrightarrow> succ H n = []"
    and nodes: "distinct (node_order H)"
    using wf by (auto simp: wf_graph_def)
  have "wf_graph H'"
    unfolding wf_graph_def fields s'_def
    using dist sub out nodes uv nu ne
    by (auto simp: distinct_removeAll)
  moreover have "set (edges H') = insert (v, u) (set (edges H) - {(u, v)})"
    unfolding set_edges fields s'_def using uv ne by (auto split: if_splits)
  ultimately show ?thesis
    using run fields by blast
qed

lemma orient_edge_spec:
  assumes wf: "wf_graph H" and types: "\<forall>n \<in> set (node_order H). ntype H n \<noteq> None"
    and e: "e \<in> set (edges H)" and rev: "(snd e, fst e) \<notin> set (edges H)"
  shows "\<exists>H'. orient_edge e H = Inr H' \<and> node_order H' = node_order H \<and>
           ntype H' = ntype H \<and> pos H' = pos H \<and> wf_graph H' \<and>
           set (edges H') = insert (oriented H e) (set (edges H) - {e})"
proof -
  obtain u v where uv: "e = (u, v)" by (cases e)
  have mem: "u \<in> set (node_order H)" "v \<in> set (node_order H)"
    using wf_graph_edge[OF wf] e uv by blast+
  then obtain tu tv where t: "ntype H u = Some tu" "ntype H v = Some tv"
    using types by fastforce
  show ?thesis
  proof (cases "tv = Source \<or> tu = Sink")
    case True
    then have "orient_edge e H = reverse_edge u v H" "oriented H e = (v, u)"
      by (auto simp: orient_edge_def oriented_def uv node_ntype_def mem t)
    then show ?thesis
      using reverse_edge_spec[OF wf, of u v] e rev uv by simp
  next
    case False
    then have "orient_edge e H = Inr H" "oriented H e = e"
      by (auto simp: orient_edge_def oriented_def uv node_ntype_def mem t)
    then show ?thesis
      using wf e by (auto simp: insert_absorb)
  qed
qed

lemma oriented_cong: "ntype H' = ntype H \<Longrightarrow> oriented H' e = oriented H e"
  by (simp add: oriented_def)

lemma foldE_orient_edge:
  assumes "wf_graph H" "\<forall>n \<in> set (node_order H). ntype H n \<noteq> None"
    and "distinct es" "set es \<subseteq> set (edges H)"
    and "\<forall>e \<in> set es. (snd e, fst e) \<notin> set (edges H)"
  shows "\<exists>H'. foldE orient_edge es H = Inr H' \<and> node_order H' = node_order H \<and>
           ntype H' = ntype H \<and> pos H' = pos H \<and> wf_graph H' \<and>
           set (edges H') = (set (edges H) - set es) \<union> oriented H ` set es"
  using assms
proof (induction es arbitrary: H)
  case Nil
  then show ?case by simp
next
  case (Cons e es)
  from Cons.prems have e: "e \<in> set (edges H)" "(snd e, fst e) \<notin> set (edges H)"
    and es: "distinct es" "e \<notin> set es" "set es \<subseteq> set (edges H)"
    by auto
  from orient_edge_spec[OF Cons.prems(1,2) e]
  obtain H1 where H1: "orient_edge e H = Inr H1" "node_order H1 = node_order H"
    "ntype H1 = ntype H" "pos H1 = pos H" "wf_graph H1"
    "set (edges H1) = insert (oriented H e) (set (edges H) - {e})"
    by blast
  have oe: "oriented H e \<notin> set es"
    using e es by (auto simp: oriented_def)
  have sub1: "set es \<subseteq> set (edges H1)"
    using es H1(6) by auto
  have rev1: "\<forall>a \<in> set es. (snd a, fst a) \<notin> set (edges H1)"
  proof
    fix a assume a: "a \<in> set es"
    then have "(snd a, fst a) \<notin> set (edges H)" using Cons.prems(5) by simp
    moreover have "(snd a, fst a) \<noteq> oriented H e"
    proof
      assume eq: "(snd a, fst a) = oriented H e"
      show False
      proof (cases "oriented H e = e")
        case True
        with eq e(1) \<open>(snd a, fst a) \<notin> set (edges H)\<close> show False by simp
      next
        case False
        then have "oriented H e = (snd e, fst e)" by (simp add: oriented_def split: if_splits)
        with eq have "a = e" by (simp add: prod_eq_iff)
        with a es(2) show False by simp
      qed
    qed
    ultimately show "(snd a, fst a) \<notin> set (edges H1)"
      using H1(6) by simp
  qed
  have types1: "\<forall>n \<in> set (node_order H1). ntype H1 n \<noteq> None"
    using Cons.prems(2) H1(2,3) by simp
  from Cons.IH[OF H1(5) types1 es(1) sub1 rev1]
  obtain H' where H': "foldE orient_edge es H1 = Inr H'" "node_order H' = node_order H1"
    "ntype H' = ntype H1" "pos H' = pos H1" "wf_graph H'"
    "set (edges H') = (set (edges H1) - set es) \<union> oriented H1 ` set es"
    by blast
  have "oriented H1 = oriented H"
    using H1(3) by (auto simp: fun_eq_iff oriented_cong)
  then have "set (edges H') = (set (edges H) - set (e # es)) \<union> oriented H ` set (e # es)"
    using H'(6) H1(6) oe by auto
  then show ?case
    using H' H1 by simp
qed

lemma inj_on_oriented:
  assumes "\<forall>e \<in> E. (snd e, fst e) \<notin> E"
  shows "inj_on (oriented G) E"
proof (rule inj_onI)
  fix a b assume ab: "a \<in> E" "b \<in> E" "oriented G a = oriented G b"
  show "a = b"
  proof (rule ccontr)
    assume "a \<noteq> b"
    with ab(3) have "a = (snd b, fst b) \<or> b = (snd a, fst a)"
      by (auto simp: oriented_def prod_eq_iff split: if_splits)
    with ab(1,2) assms show False by auto
  qed
qed

text \<open>The loop on a whole graph none of whose edges has its reverse in the graph.\<close>

lemma orient_edges_spec:
  assumes "wf_graph G" "\<forall>n \<in> set (node_order G). ntype G n \<noteq> None"
    and "\<forall>e \<in> set (edges G). (snd e, fst e) \<notin> set (edges G)"
  shows "\<exists>G'. orient_edges G = Inr G' \<and> node_order G' = node_order G \<and>
           ntype G' = ntype G \<and> pos G' = pos G \<and> wf_graph G' \<and>
           set (edges G') = oriented G ` set (edges G) \<and>
           length (edges G') = length (edges G)"
proof -
  from foldE_orient_edge[OF assms(1,2) distinct_edges[OF assms(1)] subset_refl assms(3)]
  obtain G' where G': "foldE orient_edge (edges G) G = Inr G'" "node_order G' = node_order G"
    "ntype G' = ntype G" "pos G' = pos G" "wf_graph G'"
    "set (edges G') = oriented G ` set (edges G)"
    by auto
  have "length (edges G') = card (set (edges G'))"
    using distinct_edges[OF G'(5)] by (simp add: distinct_card)
  also have "\<dots> = card (set (edges G))"
    unfolding G'(6) by (rule card_image) (rule inj_on_oriented[OF assms(3)])
  also have "\<dots> = length (edges G)"
    using distinct_edges[OF assms(1)] by (simp add: distinct_card)
  finally show ?thesis
    using G' by (auto simp: orient_edges_def)
qed

subsection \<open>The lattice before re-orientation\<close>

lemma node_id_eq_iff:
  "p \<in> set (grid N) \<Longrightarrow> q \<in> set (grid N) \<Longrightarrow> node_id N p = node_id N q \<longleftrightarrow> p = q"
  using inj_on_node_id[of N] by (auto simp: inj_on_def)

lemma edges_lattice:
  assumes "node_order G = map (node_id N) (grid N)"
    and "\<forall>p \<in> set (grid N). succ G (node_id N p) = map (node_id N) (forward_neighbours N p)"
  shows "edges G = lattice_edges N"
proof -
  have "map (\<lambda>u. map (Pair u) (succ G u)) (map (node_id N) (grid N)) =
        map (\<lambda>p. map (\<lambda>q. (node_id N p, node_id N q)) (forward_neighbours N p)) (grid N)"
    unfolding map_map by (rule map_cong[OF refl]) (simp add: assms(2) comp_def)
  then show ?thesis
    unfolding edges_def lattice_edges_def assms(1) by (simp only:)
qed

lemma in_lattice_edges:
  "e \<in> set (lattice_edges N) \<longleftrightarrow>
     (\<exists>p q. p \<in> set (grid N) \<and> q \<in> set (forward_neighbours N p) \<and>
            e = (node_id N p, node_id N q))"
  unfolding lattice_edges_def by (auto simp del: in_grid) blast

lemma forward_neighbours_coord_sum:
  "q \<in> set (forward_neighbours N p) \<Longrightarrow> coord_sum q = coord_sum p + 1"
  by (cases p) (auto simp: forward_neighbours_def coord_sum_def split: if_splits)

lemma lattice_edges_one_way:
  assumes "e \<in> set (lattice_edges N)"
  shows "(snd e, fst e) \<notin> set (lattice_edges N)"
proof
  assume rev: "(snd e, fst e) \<in> set (lattice_edges N)"
  from assms obtain p q where pq: "p \<in> set (grid N)" "q \<in> set (forward_neighbours N p)"
    "e = (node_id N p, node_id N q)"
    unfolding in_lattice_edges by blast
  from rev obtain p' q' where pq': "p' \<in> set (grid N)" "q' \<in> set (forward_neighbours N p')"
    "(snd e, fst e) = (node_id N p', node_id N q')"
    unfolding in_lattice_edges by blast
  have qg: "q \<in> set (grid N)" "q' \<in> set (grid N)"
    using forward_neighbours_grid(1) pq pq' by blast+
  from pq(3) pq'(3) have "node_id N q = node_id N p'" "node_id N p = node_id N q'"
    by simp_all
  then have "q = p'" "p = q'"
    using node_id_eq_iff pq(1) pq'(1) qg by blast+
  with forward_neighbours_coord_sum[OF pq(2)] forward_neighbours_coord_sum[OF pq'(2)]
  show False by simp
qed

subsection \<open>The lattice after re-orientation\<close>

lemma build_lattice_spec:
  assumes "N \<noteq> - 1"
  shows "\<exists>G. build_lattice N = Inr G \<and> lattice_built N G"
proof -
  define delta :: real where "delta = 1 / (of_int N + 1)"
  define Ginit where "Ginit = empty_graph\<lparr> g_N := Some N, g_delta := Some delta \<rparr>"
  have div: "py_truediv 1 (of_int (N + 1)) = Inr delta"
    using assms by (simp add: py_truediv_def delta_def add_eq_0_iff)
  have init: "node_order Ginit = []" "succ Ginit = (\<lambda>_. [])"
    by (simp_all add: Ginit_def empty_graph_def)
  from add_lattice_nodes_spec[OF init(1), of N delta]
  obtain vd G0 where
    run0: "add_lattice_nodes N delta Ginit = (vd, G0, int (length (grid N)))"
    and vd: "\<forall>p \<in> set (grid N). vd p = Some (node_id N p)"
    and nodes0: "node_order G0 = map (node_id N) (grid N)"
    and attrs0: "\<forall>p \<in> set (grid N). ntype G0 (node_id N p) = Some Internal \<and>
                                  pos G0 (node_id N p) = Some (position delta p)"
    and frame0: "G0 = Ginit\<lparr> node_order := node_order G0, ntype := ntype G0, pos := pos G0 \<rparr>"
    by blast
  have succ0: "succ G0 = (\<lambda>_. [])"
    by (subst frame0) (simp add: init)
  from foldE_add_forward_edges[OF vd subset_refl distinct_grid nodes0] succ0
  obtain G1 where
    run1: "foldE (add_forward_edges N vd) (grid N) G0 = Inr G1"
    and frame1: "G1 = G0\<lparr> succ := succ G1 \<rparr>"
    and succ1: "\<forall>p \<in> set (grid N). succ G1 (node_id N p) =
                   map (node_id N) (forward_neighbours N p)"
    and succ1_out: "\<forall>k. k \<notin> node_id N ` set (grid N) \<longrightarrow> succ G1 k = succ G0 k"
    by auto
  have fields1: "node_order G1 = node_order G0" "ntype G1 = ntype G0" "pos G1 = pos G0"
    by (subst frame1, simp)+
  have internal1: "\<forall>x y z. (x, y, z) \<in> set (grid N) \<and> (x, y) \<in> set (columns N) \<longrightarrow>
           ntype G1 (node_id N (x, y, z)) = Some Internal"
    using attrs0 fields1 by (auto simp del: in_grid in_columns)
  from foldE_mark_column[OF vd subset_refl distinct_columns _ internal1] fields1 nodes0
  obtain G2 where
    run2: "foldE (mark_column N vd) (columns N) G1 = Inr G2"
    and frame2: "G2 = G1\<lparr> ntype := ntype G2 \<rparr>"
    and ntype2: "\<forall>x y z. (x, y, z) \<in> set (grid N) \<longrightarrow>
              ntype G2 (node_id N (x, y, z)) =
                (if (x, y) \<in> set (columns N) then Some (lattice_role N (x, y, z))
                 else ntype G1 (node_id N (x, y, z)))"
    by auto
  have fields2: "node_order G2 = map (node_id N) (grid N)" "succ G2 = succ G1" "pos G2 = pos G0"
    using fields1 nodes0 by (subst frame2, simp)+
  have role2: "ntype G2 (node_id N p) = Some (lattice_role N p)" if "p \<in> set (grid N)" for p
  proof -
    obtain x y z where p: "p = (x, y, z)" by (cases p)
    with that have "(x, y) \<in> set (columns N)" by simp
    with ntype2 that p show ?thesis by (simp del: in_grid in_columns)
  qed
  have edges2: "edges G2 = lattice_edges N"
    by (rule edges_lattice) (simp_all add: fields2 succ1)
  have wf2: "wf_graph G2"
    unfolding wf_graph_def
  proof (intro conjI allI impI)
    show "distinct (node_order G2)"
      by (simp add: fields2 distinct_map inj_on_node_id)
  next
    fix u assume "u \<notin> set (node_order G2)"
    then show "succ G2 u = []"
      using succ1_out succ0 by (simp add: fields2)
  next
    fix u
    show "set (succ G2 u) \<subseteq> set (node_order G2)"
    proof (cases "u \<in> node_id N ` set (grid N)")
      case True
      then obtain p where p: "p \<in> set (grid N)" "u = node_id N p" by blast
      then show ?thesis
        using succ1 forward_neighbours_grid(1)[OF p(1)] by (auto simp: fields2)
    next
      case False
      then show ?thesis using succ1_out succ0 by (simp add: fields2)
    qed
  next
    fix u
    show "distinct (succ G2 u)"
    proof (cases "u \<in> node_id N ` set (grid N)")
      case True
      then obtain p where p: "p \<in> set (grid N)" "u = node_id N p" by blast
      have "inj_on (node_id N) (set (forward_neighbours N p))"
        using inj_on_node_id forward_neighbours_grid(1)[OF p(1)] by (rule inj_on_subset)
      then show ?thesis
        using succ1 p forward_neighbours_grid(2)[OF p(1)] by (simp add: fields2 distinct_map)
    next
      case False
      then show ?thesis using succ1_out succ0 by (simp add: fields2)
    qed
  qed
  have types2: "\<forall>n \<in> set (node_order G2). ntype G2 n \<noteq> None"
    using role2 by (auto simp: fields2)
  have one_way2: "\<forall>e \<in> set (edges G2). (snd e, fst e) \<notin> set (edges G2)"
    unfolding edges2 using lattice_edges_one_way by blast
  from orient_edges_spec[OF wf2 types2 one_way2]
  obtain G3 where
    run3: "orient_edges G2 = Inr G3"
    and fields3: "node_order G3 = node_order G2" "ntype G3 = ntype G2" "pos G3 = pos G2"
    and wf3: "wf_graph G3"
    and edges3: "set (edges G3) = oriented G2 ` set (edges G2)"
      "length (edges G3) = length (edges G2)"
    by blast
  have "oriented G2 = oriented G3"
    using fields3(2) by (auto simp: fun_eq_iff oriented_def)
  then have "lattice_built N G3"
    unfolding lattice_built_def list_all_iff
    using wf3 fields3 fields2 edges3 edges2 role2 attrs0
    by (simp add: delta_def del: in_grid)
  moreover have "build_lattice N = Inr G3"
    unfolding build_lattice_def div
    by (simp add: Ginit_def[symmetric] delta_def[symmetric] run0 add_lattice_edges_def run1
        mark_sources_and_sinks_def run2 run3)
  ultimately show ?thesis by blast
qed

section \<open>The constructor\<close>

subsection \<open>The stages after the lattice keep its structure\<close>

lemma same_structure_trans:
  "same_structure G H \<Longrightarrow> same_structure H K \<Longrightarrow> same_structure G K"
  by (simp add: same_structure_def)

lemma same_structure_edges: "same_structure G H \<Longrightarrow> edges H = edges G"
  by (simp add: same_structure_def edges_def)

lemma same_structure_wf: "same_structure G H \<Longrightarrow> wf_graph G \<Longrightarrow> wf_graph H"
  by (simp add: same_structure_def wf_graph_def)

lemma lattice_built_cong:
  assumes "same_structure G H" "lattice_built N G"
  shows "lattice_built N H"
proof -
  have "oriented H = oriented G"
    using assms(1) by (auto simp: fun_eq_iff oriented_def same_structure_def)
  moreover have "edges H = edges G"
    using assms(1) by (rule same_structure_edges)
  moreover have "node_order H = node_order G" "ntype H = ntype G" "pos H = pos G"
    using assms(1) by (simp_all add: same_structure_def)
  ultimately show ?thesis
    using assms(2) same_structure_wf[OF assms(1)]
    by (simp add: lattice_built_def)
qed

lemma fold_same_structure:
  assumes "\<And>x H. same_structure G H \<Longrightarrow> same_structure G (f x H)" "same_structure G H"
  shows "same_structure G (fold f xs H)"
  using assms(2) by (induction xs arbitrary: H) (simp_all add: assms(1))

lemma funpow_same_structure:
  assumes "\<And>H. same_structure G H \<Longrightarrow> same_structure G (f H)" "same_structure G H"
  shows "same_structure G ((f ^^ n) H)"
  by (induction n) (simp_all add: assms)

lemma calculate_lengths_spec:
  assumes "\<forall>e \<in> set (edges G). pos G (fst e) \<noteq> None \<and> pos G (snd e) \<noteq> None"
  shows "\<exists>G'. calculate_lengths G = Inr G' \<and> same_structure G G' \<and>
           (\<exists>l. G' = G\<lparr> edge_length := l \<rparr>)"
proof -
  define g where "g = (\<lambda>e (H :: graph). H\<lparr> edge_length :=
      (edge_length H)(e \<mapsto> euclidean (the (pos H (fst e))) (the (pos H (snd e)))) \<rparr>)"
  define I where "I = (\<lambda>H. same_structure G H \<and> (\<exists>l. H = G\<lparr> edge_length := l \<rparr>))"
  have "foldE calculate_length (edges G) G = Inr (fold g (edges G) G) \<and>
        I (fold g (edges G) G)"
  proof (rule foldE_invariant[where I = I])
    have "G = G\<lparr> edge_length := edge_length G \<rparr>" by simp
    then show "I G" unfolding I_def by (metis same_structure_refl)
  next
    fix e H assume e: "e \<in> set (edges G)" and I: "I H"
    then obtain l where s: "same_structure G H" and l: "H = G\<lparr> edge_length := l \<rparr>"
      by (auto simp: I_def)
    from e s obtain p q where pq: "pos H (fst e) = Some p" "pos H (snd e) = Some q"
      using assms by (fastforce simp: same_structure_def)
    have "g e H = G\<lparr> edge_length := l(e \<mapsto> euclidean p q) \<rparr>"
      by (subst l) (simp add: g_def pq[unfolded l, simplified])
    then have "I (g e H)"
      using s unfolding I_def by (auto simp: same_structure_def g_def)
    moreover have "calculate_length e H = Inr (g e H)"
      by (simp add: calculate_length_def g_def pq)
    ultimately show "calculate_length e H = Inr (g e H) \<and> I (g e H)" by simp
  qed
  then show ?thesis
    by (auto simp: calculate_lengths_def I_def)
qed

lemma set_radius_same_structure: "same_structure G H \<Longrightarrow> same_structure G (set_radius e r H)"
  by (simp add: same_structure_def set_radius_def)

lemma fold_set_radius_const:
  "radius (fold (\<lambda>e. set_radius e c) es H) e = (if e \<in> set es then Some c else radius H e)"
  by (induction es arbitrary: H) (simp_all add: set_radius_def)

lemma symmetric_radii_spec:
  "same_structure G (symmetric_radii N G)"
  "e \<in> set (edges G) \<Longrightarrow>
     radius (symmetric_radii N G) e = Some (1 / ((of_int N + 1) * sqrt (90 * pi)))"
  unfolding symmetric_radii_def
  by (simp_all add: fold_same_structure set_radius_same_structure fold_set_radius_const)

lemma fold_set_radius_indexed:
  "same_structure G H \<Longrightarrow> same_structure G (fold (\<lambda>(i, e). set_radius e (f i)) ps H)"
  "center_dist (fold (\<lambda>(i, e). set_radius e (f i)) ps H) = center_dist H"
proof (induction ps arbitrary: H)
  case Nil
  {
    case 1 then show ?case by simp
  next
    case 2 show ?case by simp
  }
next
  case (Cons p ps)
  {
    case 1
    then show ?case
      by (cases p) (simp add: Cons.IH(1) set_radius_same_structure)
  next
    case 2
    show ?case
      by (cases p) (simp add: Cons.IH(2), simp add: set_radius_def)
  }
qed

lemma fold_set_radius_defined:
  assumes "e \<in> snd ` set ps \<or> radius H e \<noteq> None"
  shows "radius (fold (\<lambda>(i, e). set_radius e (f i)) ps H) e \<noteq> None"
  using assms
proof (induction ps arbitrary: H)
  case Nil
  then show ?case by simp
next
  case (Cons p ps)
  obtain i e' where p: "p = (i, e')" by (cases p)
  have "e \<in> snd ` set ps \<or> radius (set_radius e' (f i) H) e \<noteq> None"
    using Cons.prems by (auto simp: p set_radius_def)
  from Cons.IH[OF this] show ?case by (simp add: p)
qed

lemma random_radii_spec:
  "same_structure G (random_radii gamma N G)"
  "center_dist (random_radii gamma N G) = center_dist G"
  "e \<in> set (edges G) \<Longrightarrow> radius (random_radii gamma N G) e \<noteq> None"
proof -
  have "snd ` set (zip [0..<length (edges G)] (edges G)) = set (edges G)"
    by (metis length_upt map_snd_zip minus_nat.diff_0 set_map)
  then show "e \<in> set (edges G) \<Longrightarrow> radius (random_radii gamma N G) e \<noteq> None"
    unfolding random_radii_def Let_def by (intro fold_set_radius_defined) simp
qed (simp_all add: random_radii_def fold_set_radius_indexed)

lemma repair_swap_same_structure:
  "same_structure G H \<Longrightarrow> same_structure G (repair_swap e1 e2 H)"
  by (simp add: same_structure_def repair_swap_def swap_radii_def)

lemma repair_sweep_same_structure:
  "same_structure G H \<Longrightarrow> same_structure G (repair_sweep H)"
  unfolding repair_sweep_def
  by (intro fold_same_structure repair_swap_same_structure)

lemma prep_net_for_sims_spec:
  "same_structure G (prep_net_for_sims P G)" "radius (prep_net_for_sims P G) = radius G"
  by (simp_all add: prep_net_for_sims_def same_structure_def)

lemma fold_rank_edge_same_structure:
  "same_structure G H \<Longrightarrow> same_structure G (fold (rank_edge G') es H)"
  by (intro fold_same_structure same_structure_rank_edge)

text \<open>Random mode: ranking, draws and repair passes, without an exception.\<close>

lemma assign_radii_random:
  assumes "wf_graph G" "list_all (\<lambda>n. ntype G n \<noteq> None) (node_order G)"
  shows "\<exists>G1. assign_distances_from_source_and_sink_nodes G = Inr G1 \<and>
           same_structure G G1 \<and> repair_ready (random_radii gamma N G1) \<and>
           assign_radii gamma N radii_iters False G =
             Inr ((repair_sweep ^^ nat radii_iters) (random_radii gamma N G1))"
proof -
  define G1 where "G1 = fold (rank_edge G) (edges G) G"
  have run: "assign_distances_from_source_and_sink_nodes G = Inr G1"
    and same: "same_structure G G1"
    using assign_distances_fold[OF assms] by (simp_all add: G1_def)
  have cd: "center_dist G1 e \<noteq> None" if "e \<in> set (edges G)" for e
    using that by (simp add: G1_def fold_rank_edge_attrs)
  have e1: "edges G1 = edges G"
    using same by (rule same_structure_edges)
  have e2: "edges (random_radii gamma N G1) = edges G"
    using same_structure_edges[OF random_radii_spec(1), of gamma N G1] e1 by simp
  have ready: "repair_ready (random_radii gamma N G1)"
    unfolding repair_ready_def list_all_iff e2
    using cd random_radii_spec(3)[of _ G1 gamma N] e1
    by (simp add: random_radii_spec(2))
  show ?thesis
    using run same ready repair_passes_sweeps[OF ready]
    by (simp add: assign_radii_def)
qed

subsection \<open>The constructor on a lattice\<close>

lemma lattice_built_nodes:
  assumes "lattice_built N G"
  shows "list_all (\<lambda>n. ntype G n \<noteq> None) (node_order G)"
    "\<forall>n \<in> set (node_order G). pos G n \<noteq> None"
proof -
  have all: "\<forall>p \<in> set (grid N). ntype G (node_id N p) = Some (lattice_role N p) \<and>
                    pos G (node_id N p) = Some (position (1 / (of_int N + 1)) p)"
    and nodes: "set (node_order G) = node_id N ` set (grid N)"
    using assms by (simp_all add: lattice_built_def list_all_iff del: in_grid)
  show "list_all (\<lambda>n. ntype G n \<noteq> None) (node_order G)"
    unfolding list_all_iff nodes using all by fastforce
  show "\<forall>n \<in> set (node_order G). pos G n \<noteq> None"
    unfolding nodes using all by fastforce
qed

lemma lattice_built_wf: "lattice_built N G \<Longrightarrow> wf_graph G"
  by (simp add: lattice_built_def)

lemma create_network_spec:
  assumes "N \<noteq> - 1"
  shows "\<exists>G. create_network_multiple_sources_and_sinks P gamma N radii_iters symmetric = Inr G \<and>
           lattice_built N G \<and>
           (symmetric \<longrightarrow> (\<forall>e \<in> set (edges G).
              radius G e = Some (1 / ((of_int N + 1) * sqrt (90 * pi)))))"
proof -
  from build_lattice_spec[OF assms]
  obtain L where L: "build_lattice N = Inr L" "lattice_built N L" by blast
  have "\<forall>e \<in> set (edges L). pos L (fst e) \<noteq> None \<and> pos L (snd e) \<noteq> None"
    using lattice_built_nodes(2)[OF L(2)] edge_endpoints[OF lattice_built_wf[OF L(2)]]
    by blast
  from calculate_lengths_spec[OF this]
  obtain L1 where L1: "calculate_lengths L = Inr L1" "same_structure L L1" by blast
  have built1: "lattice_built N L1"
    using L1(2) L(2) by (rule lattice_built_cong)
  have "\<exists>L2. assign_radii gamma N radii_iters symmetric L1 = Inr L2 \<and> same_structure L1 L2 \<and>
          (symmetric \<longrightarrow> (\<forall>e \<in> set (edges L1).
              radius L2 e = Some (1 / ((of_int N + 1) * sqrt (90 * pi)))))"
  proof (cases symmetric)
    case True
    then show ?thesis
      by (simp add: assign_radii_def symmetric_radii_spec)
  next
    case False
    from assign_radii_random[OF lattice_built_wf[OF built1] lattice_built_nodes(1)[OF built1],
        of gamma N radii_iters]
    obtain G1 where G1: "same_structure L1 G1"
      "assign_radii gamma N radii_iters False L1 =
             Inr ((repair_sweep ^^ nat radii_iters) (random_radii gamma N G1))"
      by blast
    have "same_structure L1 (random_radii gamma N G1)"
      using G1(1) random_radii_spec(1) by (rule same_structure_trans)
    then have "same_structure L1 ((repair_sweep ^^ nat radii_iters) (random_radii gamma N G1))"
      by (intro funpow_same_structure repair_sweep_same_structure)
    with G1(2) False show ?thesis by simp
  qed
  then obtain L2 where L2: "assign_radii gamma N radii_iters symmetric L1 = Inr L2"
    "same_structure L1 L2"
    "symmetric \<longrightarrow> (\<forall>e \<in> set (edges L1).
              radius L2 e = Some (1 / ((of_int N + 1) * sqrt (90 * pi))))"
    by blast
  let ?G = "prep_net_for_sims P L2"
  have same: "same_structure L1 ?G"
    using L2(2) prep_net_for_sims_spec(1) by (rule same_structure_trans)
  have "create_network_multiple_sources_and_sinks P gamma N radii_iters symmetric = Inr ?G"
    by (simp add: create_network_multiple_sources_and_sinks_def L(1) L1(1) L2(1))
  moreover have "lattice_built N ?G"
    using same built1 by (rule lattice_built_cong)
  moreover have "symmetric \<longrightarrow> (\<forall>e \<in> set (edges ?G).
              radius ?G e = Some (1 / ((of_int N + 1) * sqrt (90 * pi))))"
    using L2(3) same_structure_edges[OF same] by (simp add: prep_net_for_sims_spec(2))
  ultimately show ?thesis by blast
qed

subsection \<open>Counting the edges\<close>

lemma sum_list_concat_map:
  "sum_list (map f (concat (map g xs))) = sum_list (map (\<lambda>x. sum_list (map f (g x))) xs)"
  by (induction xs) simp_all

lemma count_below:
  "sum_list (map (\<lambda>x. if x < N - 1 then 1 else 0) (py_range N)) = nat N - (1 :: nat)"
proof -
  have "sum_list (map (\<lambda>i. if int i < N - 1 then 1 else 0) [0..<n]) = min n (nat (N - 1))" for n
    by (induction n) auto
  from this[of "nat N"] show ?thesis
    by (simp add: py_range_def comp_def)
qed

lemma length_forward_neighbours:
  "length (forward_neighbours N (x, y, z)) =
     (if x < N - 1 then 1 else 0) + ((if y < N - 1 then 1 else 0) + (if z < N - 1 then 1 else 0))"
  by (simp add: forward_neighbours_def)

lemma length_lattice_edges: "length (lattice_edges N) = 3 * nat N ^ 2 * (nat N - 1)"
proof -
  let ?a = "\<lambda>x. if x < N - 1 then 1 else 0 :: nat"
  let ?r = "py_range N"
  have "length (lattice_edges N) =
          sum_list (map (\<lambda>p. length (forward_neighbours N p)) (grid N))"
    by (simp add: lattice_edges_def length_concat comp_def)
  also have "\<dots> = (\<Sum>x\<leftarrow>?r. \<Sum>y\<leftarrow>?r. \<Sum>z\<leftarrow>?r. ?a x + (?a y + ?a z))"
    unfolding grid_def sum_list_concat_map
    by (simp only: map_map comp_def length_forward_neighbours)
  also have "\<dots> = (\<Sum>x\<leftarrow>?r. \<Sum>y\<leftarrow>?r. nat N * ?a x + (nat N * ?a y + (nat N - 1)))"
    by (simp only: sum_list_addf sum_list_triv count_below length_py_range of_nat_id)
  also have "\<dots> = (\<Sum>x\<leftarrow>?r. nat N * (nat N * ?a x) + (nat N * (nat N - 1) + nat N * (nat N - 1)))"
    by (simp only: sum_list_addf sum_list_triv sum_list_const_mult count_below length_py_range
        of_nat_id)
  also have "\<dots> = nat N * (nat N * (nat N - 1)) +
                   (nat N * (nat N * (nat N - 1)) + nat N * (nat N * (nat N - 1)))"
    by (simp only: sum_list_addf sum_list_triv sum_list_const_mult count_below length_py_range
        of_nat_id)
  also have "\<dots> = 3 * nat N ^ 2 * (nat N - 1)"
    by (simp add: power2_eq_square)
  finally show ?thesis .
qed

subsection \<open>Roles at the ends of an edge\<close>

lemma parity_step: "(x + 1) mod 2 \<noteq> x mod (2 :: int)"
  by presburger

lemma forward_neighbour_roles:
  assumes "q \<in> set (forward_neighbours N p)"
  shows "lattice_role N q = Source \<longrightarrow> lattice_role N p \<noteq> Source"
    and "lattice_role N p = Sink \<longrightarrow> lattice_role N q \<noteq> Sink"
proof -
  obtain x y z where p: "p = (x, y, z)" by (cases p)
  from assms consider "x < N - 1" "q = (x + 1, y, z)" | "y < N - 1" "q = (x, y + 1, z)"
    | "z < N - 1" "q = (x, y, z + 1)"
    by (auto simp: p forward_neighbours_def split: if_splits)
  then have "(lattice_role N q = Source \<longrightarrow> lattice_role N p \<noteq> Source) \<and>
             (lattice_role N p = Sink \<longrightarrow> lattice_role N q \<noteq> Sink)"
  proof cases
    case 1
    then show ?thesis
      using parity_step[of x] by (auto simp: p lattice_role_def split: if_splits)
  next
    case 2
    then show ?thesis
      using parity_step[of y] by (auto simp: p lattice_role_def split: if_splits)
  next
    case 3
    then show ?thesis
      by (auto simp: p lattice_role_def split: if_splits)
  qed
  then show "lattice_role N q = Source \<longrightarrow> lattice_role N p \<noteq> Source"
    and "lattice_role N p = Sink \<longrightarrow> lattice_role N q \<noteq> Sink"
    by simp_all
qed

lemma lattice_built_roles:
  assumes "lattice_built N G" "e \<in> set (edges G)"
  shows "(\<exists>r. ntype G (fst e) = Some r \<and> r \<noteq> Sink) \<and>
         (\<exists>r. ntype G (snd e) = Some r \<and> r \<noteq> Source)"
proof -
  from assms obtain e0 where e0: "e0 \<in> set (lattice_edges N)" "e = oriented G e0"
    by (auto simp: lattice_built_def)
  then obtain p q where pq: "p \<in> set (grid N)" "q \<in> set (forward_neighbours N p)"
    "e0 = (node_id N p, node_id N q)"
    unfolding in_lattice_edges by blast
  have qg: "q \<in> set (grid N)"
    using forward_neighbours_grid(1)[OF pq(1)] pq(2) by blast
  have roles: "ntype G (node_id N p) = Some (lattice_role N p)"
    "ntype G (node_id N q) = Some (lattice_role N q)"
    using assms(1) pq(1) qg by (simp_all add: lattice_built_def list_all_iff del: in_grid)
  show ?thesis
    using forward_neighbour_roles[OF pq(2)]
    by (auto simp: e0(2) pq(3) oriented_def roles)
qed

section \<open>The lattice of resolution 2\<close>

lemma upt_2: "[0..<2] = [0, 1]" by (simp add: upt_rec)

lemma py_range_2: "py_range 2 = [0, 1]"
  by (simp add: py_range_def upt_2)

lemma grid_2: "grid 2 = [(0,0,0),(0,0,1),(0,1,0),(0,1,1),(1,0,0),(1,0,1),(1,1,0),(1,1,1)]"
  by (simp add: grid_def py_range_2)

lemma columns_2: "columns 2 = [(0,0),(0,1),(1,0),(1,1)]"
  by (simp add: columns_def py_range_2)

lemma build_lattice_2: "build_lattice 2 = Inr lattice2"
proof -
  define vd :: vdict where "vd = [(0, 0, 0) \<mapsto> 0, (0, 0, 1) \<mapsto> 1, (0, 1, 0) \<mapsto> 2,
    (0, 1, 1) \<mapsto> 3, (1, 0, 0) \<mapsto> 4, (1, 0, 1) \<mapsto> 5, (1, 1, 0) \<mapsto> 6, (1, 1, 1) \<mapsto> 7]"
  define G0 where "G0 = empty_graph\<lparr> g_N := Some 2, g_delta := Some (1 / 3),
       node_order := [0, 1, 2, 3, 4, 5, 6, 7],
       ntype := [0 \<mapsto> Internal, 1 \<mapsto> Internal, 2 \<mapsto> Internal, 3 \<mapsto> Internal,
                 4 \<mapsto> Internal, 5 \<mapsto> Internal, 6 \<mapsto> Internal, 7 \<mapsto> Internal],
       pos := [0 \<mapsto> (1 / 3, 1 / 3, 1 / 3), 1 \<mapsto> (1 / 3, 1 / 3, 2 / 3),
               2 \<mapsto> (1 / 3, 2 / 3, 1 / 3), 3 \<mapsto> (1 / 3, 2 / 3, 2 / 3),
               4 \<mapsto> (2 / 3, 1 / 3, 1 / 3), 5 \<mapsto> (2 / 3, 1 / 3, 2 / 3),
               6 \<mapsto> (2 / 3, 2 / 3, 1 / 3), 7 \<mapsto> (2 / 3, 2 / 3, 2 / 3)] \<rparr>"
  define G1 where "G1 = G0\<lparr> succ := (\<lambda>_. [])(0 := [4, 2, 1], 1 := [5, 3], 2 := [6, 3],
       3 := [7], 4 := [6, 5], 5 := [7], 6 := [7]) \<rparr>"
  define G2 where "G2 = G1\<lparr> ntype := [0 \<mapsto> Source, 1 \<mapsto> Sink, 2 \<mapsto> Internal,
       3 \<mapsto> Internal, 4 \<mapsto> Internal, 5 \<mapsto> Internal, 6 \<mapsto> Source, 7 \<mapsto> Sink] \<rparr>"
  have s0: "add_lattice_nodes 2 (1 / 3) (empty_graph\<lparr> g_N := Some 2, g_delta := Some (1 / 3) \<rparr>) =
              (vd, G0, 8)"
    by (simp add: add_lattice_nodes_def grid_2 add_lattice_node_def add_node_def insert_node_def
        empty_graph_def vd_def G0_def)
  have fe: "map (forward_edges 2 vd) (grid 2) =
     [Inr [(0, 4), (0, 2), (0, 1)], Inr [(1, 5), (1, 3)], Inr [(2, 6), (2, 3)],
      Inr [(3, 7)], Inr [(4, 6), (4, 5)], Inr [(5, 7)], Inr [(6, 7)], Inr []]"
    by (simp add: grid_2 forward_edges_def lattice_edge_def vd_def)
  have G0_fields: "node_order G0 = [0, 1, 2, 3, 4, 5, 6, 7]" "succ G0 = (\<lambda>_. [])"
    by (simp_all add: G0_def empty_graph_def)
  have s1: "add_lattice_edges 2 vd G0 = Inr G1"
    using fe
    by (simp add: add_lattice_edges_def grid_2 add_forward_edges_def add_edges_from_def
        add_edge_def insert_node_def G0_fields G1_def)
  have G1_fields: "node_order G1 = [0, 1, 2, 3, 4, 5, 6, 7]"
    "ntype G1 = [0 \<mapsto> Internal, 1 \<mapsto> Internal, 2 \<mapsto> Internal, 3 \<mapsto> Internal,
                 4 \<mapsto> Internal, 5 \<mapsto> Internal, 6 \<mapsto> Internal, 7 \<mapsto> Internal]"
    by (simp_all add: G1_def G0_def)
  have s2: "mark_sources_and_sinks 2 vd G1 = Inr G2"
    by (simp add: mark_sources_and_sinks_def columns_2 mark_column_def set_ntype_def vd_def
        G1_fields G2_def fun_upd_twist)
  have e2: "edges G2 = [(0, 4), (0, 2), (0, 1), (1, 5), (1, 3), (2, 6), (2, 3), (3, 7),
      (4, 6), (4, 5), (5, 7), (6, 7)]"
    by (simp add: edges_def G2_def G1_def G0_def)
  have G2_fields: "node_order G2 = [0, 1, 2, 3, 4, 5, 6, 7]"
    "ntype G2 = [0 \<mapsto> Source, 1 \<mapsto> Sink, 2 \<mapsto> Internal,
       3 \<mapsto> Internal, 4 \<mapsto> Internal, 5 \<mapsto> Internal, 6 \<mapsto> Source, 7 \<mapsto> Sink]"
    "succ G2 = (\<lambda>_. [])(0 := [4, 2, 1], 1 := [5, 3], 2 := [6, 3],
       3 := [7], 4 := [6, 5], 5 := [7], 6 := [7])"
    "edge_length G2 = Map.empty" "radius G2 = Map.empty" "src_dist G2 = Map.empty"
    "sink_dist G2 = Map.empty" "center_dist G2 = Map.empty" "volume G2 = Map.empty"
    "inverse_transit_time G2 = Map.empty" "idx G2 = Map.empty"
    by (simp_all add: G2_def G1_def G0_def empty_graph_def)
  have s3: "orient_edges G2 = Inr (G2\<lparr> succ := (\<lambda>_. [])(0 := [4, 2, 1], 2 := [3], 3 := [7, 1],
      4 := [5], 5 := [7, 1], 6 := [7, 2, 4]) \<rparr>)"
    unfolding orient_edges_def e2
    by (simp add: orient_edge_def node_ntype_def reverse_edge_def remove_edge_def add_edge_def
        insert_node_def G2_fields)
       (rule graph.equality; simp add: G2_fields fun_eq_iff)
  have "G2\<lparr> succ := (\<lambda>_. [])(0 := [4, 2, 1], 2 := [3], 3 := [7, 1],
      4 := [5], 5 := [7, 1], 6 := [7, 2, 4]) \<rparr> = lattice2"
    by (simp add: G2_def G1_def G0_def lattice2_def)
  with s3 have s3': "orient_edges G2 = Inr lattice2" by simp
  show ?thesis
    by (simp add: build_lattice_def py_truediv_def s0 s1 s2 s3')
qed

section \<open>The built network\<close>



lemma lattice_built_edge_neighbours:
  assumes "lattice_built N G" "e \<in> set (edges G)"
  shows "\<exists>p \<in> set (grid N). \<exists>q \<in> set (forward_neighbours N p).
           e = (node_id N p, node_id N q) \<or> e = (node_id N q, node_id N p)"
proof -
  from assms obtain e0 where e0: "e0 \<in> set (lattice_edges N)" "e = oriented G e0"
    by (auto simp: lattice_built_def)
  then obtain p q where pq: "p \<in> set (grid N)" "q \<in> set (forward_neighbours N p)"
    "e0 = (node_id N p, node_id N q)"
    unfolding in_lattice_edges by blast
  have "e = (node_id N p, node_id N q) \<or> e = (node_id N q, node_id N p)"
    using e0(2) pq(3) by (simp add: oriented_def)
  with pq(1,2) show ?thesis by blast
qed

text \<open>
  Claim C4. For every resolution \<open>N \<ge> 1\<close> the lattice construction, up to and including
  the re-orientation loop, returns a graph, and so does the whole constructor; in both
  graphs every edge \<open>(u, v)\<close> starts at a node whose role is not sink and ends at a node
  whose role is not source.
\<close>

theorem lattice_edges_respect_roles:
  assumes "1 \<le> N"
  shows "(\<exists>G. build_lattice N = Inr G \<and>
            (\<forall>e \<in> set (edges G).
               (\<exists>r. ntype G (fst e) = Some r \<and> r \<noteq> Sink) \<and>
               (\<exists>r. ntype G (snd e) = Some r \<and> r \<noteq> Source))) \<and>
         (\<exists>G. create_network_multiple_sources_and_sinks P gamma N radii_iters symmetric = Inr G \<and>
            (\<forall>e \<in> set (edges G).
               (\<exists>r. ntype G (fst e) = Some r \<and> r \<noteq> Sink) \<and>
               (\<exists>r. ntype G (snd e) = Some r \<and> r \<noteq> Source)))"
proof -
  have N: "N \<noteq> - 1" using assms by simp
  from build_lattice_spec[OF N] obtain L where
    L: "build_lattice N = Inr L" "lattice_built N L" by blast
  from create_network_spec[OF N, of P gamma radii_iters symmetric] obtain G where
    G: "create_network_multiple_sources_and_sinks P gamma N radii_iters symmetric = Inr G"
      "lattice_built N G" by blast
  show ?thesis
    using L(1) G(1) lattice_built_roles[OF L(2)] lattice_built_roles[OF G(2)] by blast
qed

text \<open>
  On the lattice of resolution 2 the nodes 0 and 6 are sources, the nodes 1 and 7 are
  sinks; no edge of the twelve ends at 0 or 6 or starts at 1 or 7.
\<close>

theorem lattice_edges_respect_roles_witness:
  "build_lattice 2 = Inr lattice2 \<and>
   edges lattice2 = [(0, 4), (0, 2), (0, 1), (2, 3), (3, 7), (3, 1), (4, 5), (5, 7), (5, 1),
                     (6, 7), (6, 2), (6, 4)] \<and>
   list_all (\<lambda>e. (\<exists>r. ntype lattice2 (fst e) = Some r \<and> r \<noteq> Sink) \<and>
                  (\<exists>r. ntype lattice2 (snd e) = Some r \<and> r \<noteq> Source)) (edges lattice2)"
proof -
  have "edges lattice2 = [(0, 4), (0, 2), (0, 1), (2, 3), (3, 7), (3, 1), (4, 5), (5, 7),
                          (5, 1), (6, 7), (6, 2), (6, 4)]"
    by (simp add: edges_def lattice2_def empty_graph_def)
  moreover have "list_all (\<lambda>e. (\<exists>r. ntype lattice2 (fst e) = Some r \<and> r \<noteq> Sink) \<and>
                  (\<exists>r. ntype lattice2 (snd e) = Some r \<and> r \<noteq> Source)) (edges lattice2)"
    using lattice_edges_respect_roles [of 2] build_lattice_2
    by (simp add: list_all_iff)
  ultimately show ?thesis
    using build_lattice_2 by simp
qed

text \<open>
  Claim C6. For every resolution \<open>N \<ge> 1\<close> the constructor returns a graph with exactly
  \<open>N\<^sup>3\<close> nodes, numbered \<open>0, 1, \<dots>\<close> in loop order; the node of the index triple
  \<open>(i, j, k)\<close>, with \<open>i\<close>, \<open>j\<close>, \<open>k\<close> in \<open>[0, N)\<close>, is at
  \<open>(delta (i + 1), delta (j + 1), delta (k + 1))\<close> with \<open>delta = 1 / (N + 1)\<close>; every edge
  joins a node and one of its forward neighbours along an axis, in one of the two
  directions; no edge is listed twice, and there are exactly \<open>3 N\<^sup>2 (N - 1)\<close> edges, so at
  most that many.
\<close>

theorem lattice_nodes_positions_edges:
  assumes "1 \<le> N"
  shows "\<exists>G. create_network_multiple_sources_and_sinks P gamma N radii_iters symmetric = Inr G \<and>
           node_order G = map (node_id N) (grid N) \<and>
           node_order G = map int [0..<nat N ^ 3] \<and>
           length (node_order G) = nat N ^ 3 \<and>
           (\<forall>p \<in> set (grid N). pos G (node_id N p) = Some (position (1 / (of_int N + 1)) p)) \<and>
           (\<forall>e \<in> set (edges G). \<exists>p \<in> set (grid N). \<exists>q \<in> set (forward_neighbours N p).
              e = (node_id N p, node_id N q) \<or> e = (node_id N q, node_id N p)) \<and>
           distinct (edges G) \<and>
           length (edges G) = 3 * nat N ^ 2 * (nat N - 1) \<and>
           length (edges G) \<le> 3 * nat N ^ 2 * (nat N - 1)"
proof -
  have N: "N \<noteq> - 1" using assms by simp
  from create_network_spec[OF N, of P gamma radii_iters symmetric] obtain G where
    G: "create_network_multiple_sources_and_sinks P gamma N radii_iters symmetric = Inr G"
      "lattice_built N G" by blast
  have nodes: "node_order G = map (node_id N) (grid N)"
    using G(2) by (simp add: lattice_built_def)
  have ids: "node_order G = map int [0..<nat N ^ 3]"
    unfolding nodes map_node_id_grid by (simp add: length_grid)
  have len: "length (node_order G) = nat N ^ 3"
    unfolding nodes by (simp add: length_grid)
  have posn: "\<forall>p \<in> set (grid N). pos G (node_id N p) = Some (position (1 / (of_int N + 1)) p)"
    using G(2) by (simp add: lattice_built_def list_all_iff del: in_grid)
  have nb: "\<forall>e \<in> set (edges G). \<exists>p \<in> set (grid N). \<exists>q \<in> set (forward_neighbours N p).
              e = (node_id N p, node_id N q) \<or> e = (node_id N q, node_id N p)"
    using lattice_built_edge_neighbours[OF G(2)] by blast
  have dist: "distinct (edges G)"
    using G(2) by (intro distinct_edges lattice_built_wf)
  have cnt: "length (edges G) = 3 * nat N ^ 2 * (nat N - 1)"
    using G(2) by (simp add: lattice_built_def length_lattice_edges)
  show ?thesis
    using G(1) nodes ids len posn nb dist cnt by (intro exI[of _ G] conjI) simp_all
qed

text \<open>Resolution 2: eight nodes and twelve edges.\<close>

theorem lattice_nodes_positions_edges_witness:
  "\<exists>G. create_network_multiple_sources_and_sinks prep_example gamma_example 2 2 False = Inr G \<and>
     node_order G = [0, 1, 2, 3, 4, 5, 6, 7] \<and>
     pos G (node_id 2 (1, 0, 1)) = Some (2 / 3, 1 / 3, 2 / 3) \<and>
     distinct (edges G) \<and> length (edges G) = 12"
proof -
  have "[0..<8] = [0, 1, 2, 3, 4, 5, 6, 7]"
    by (simp add: upt_rec)
  moreover have "(1, 0, 1) \<in> set (grid 2)"
    by simp
  ultimately show ?thesis
    using lattice_nodes_positions_edges [of 2 prep_example gamma_example 2 False]
    by (auto simp: position_def)
qed

text \<open>
  Claim C7. In symmetric mode, for every resolution \<open>N \<ge> 1\<close>, the constructor returns a
  graph every edge of which has the radius \<open>1 / ((N + 1) sqrt (90 \<pi>))\<close>; the result does
  not depend on the random generator or on the number of repair passes.
\<close>

theorem symmetric_radius:
  assumes "1 \<le> N"
  shows "\<exists>G. create_network_multiple_sources_and_sinks P gamma N radii_iters True = Inr G \<and>
           (\<forall>e \<in> set (edges G). radius G e = Some (1 / ((of_int N + 1) * sqrt (90 * pi)))) \<and>
           (\<forall>gamma' radii_iters'.
              create_network_multiple_sources_and_sinks P gamma' N radii_iters' True = Inr G)"
proof -
  have N: "N \<noteq> - 1" using assms by simp
  from create_network_spec[OF N, of P gamma radii_iters True] obtain G where
    G: "create_network_multiple_sources_and_sinks P gamma N radii_iters True = Inr G"
      "\<forall>e \<in> set (edges G). radius G e = Some (1 / ((of_int N + 1) * sqrt (90 * pi)))"
    by auto
  have "create_network_multiple_sources_and_sinks P gamma' N radii_iters' True =
        create_network_multiple_sources_and_sinks P gamma N radii_iters True"
    for gamma' radii_iters'
    by (simp add: create_network_multiple_sources_and_sinks_def assign_radii_def)
  with G show ?thesis by auto
qed

text \<open>Resolution 2: the twelve edges all have the radius \<open>1 / (3 sqrt (90 \<pi>))\<close>.\<close>

theorem symmetric_radius_witness:
  "\<exists>G. create_network_multiple_sources_and_sinks prep_example gamma_example 2 2 True = Inr G \<and>
     length (edges G) = 12 \<and>
     list_all (\<lambda>e. radius G e = Some (1 / (3 * sqrt (90 * pi)))) (edges G)"
proof -
  obtain G where G:
    "create_network_multiple_sources_and_sinks prep_example gamma_example 2 2 True = Inr G"
    "\<forall>e \<in> set (edges G). radius G e = Some (1 / ((of_int 2 + 1) * sqrt (90 * pi)))"
    using symmetric_radius [of 2 prep_example gamma_example 2] by auto
  obtain G' where G':
    "create_network_multiple_sources_and_sinks prep_example gamma_example 2 2 True = Inr G'"
    "lattice_built 2 G'"
    using create_network_spec[of 2 prep_example gamma_example 2 True] by auto
  have "length (edges G) = 12"
    using G(1) G' by (simp add: lattice_built_def length_lattice_edges)
  with G show ?thesis
    by (intro exI[of _ G]) (simp add: list_all_iff)
qed




end
